theory Spec2Isabelle
  imports Main "HOL-Library.AList" "HOL-Library.Char_ord" "HOL-Library.List_Lexorder"
    "HOL-Library.Multiset" "HOL-Library.Sublist"
begin

section \<open>Configuration (config.py)\<close>

type_synonym team = string
type_synonym group = string
type_synonym conf = string
type_synonym pot_name = string

text \<open>
  \<open>conf_dict\<close> and \<open>pot_dict\<close> are Python dictionaries that the simulator only reads by
  key; they are maps. \<open>groups_formed\<close> is a dictionary whose items are iterated in
  insertion order by the driver, so it is an association list in that order.
\<close>

type_synonym conf_dict = "team \<rightharpoonup> conf list"
type_synonym pot_dict = "pot_name \<rightharpoonup> team list"
type_synonym groups_dict = "(group \<times> team list) list"
type_synonym groups_filled = "pot_name \<rightharpoonup> group set"

definition GROUPS :: "group list" where
  "GROUPS = [''A'', ''B'', ''C'', ''D'', ''E'', ''F'', ''G'', ''H'', ''I'', ''J'', ''K'', ''L'']"

definition MAX_UEFA_PER_GROUP :: nat where
  "MAX_UEFA_PER_GROUP = 2"

definition MAX_OTHER_CONF_PER_GROUP :: nat where
  "MAX_OTHER_CONF_PER_GROUP = 1"

text \<open>The dictionary \<open>FIXED_HOSTS\<close>, in the order its items are iterated.\<close>

definition FIXED_HOSTS :: "(team \<times> group) list" where
  "FIXED_HOSTS = [(''Mexico'', ''A''), (''Canada'', ''B''), (''United States'', ''D'')]"

definition MAX_ATTEMPTS_PER_SIMULATION :: int where
  "MAX_ATTEMPTS_PER_SIMULATION = 1000"

section \<open>Dictionary reads\<close>

text \<open>\<open>d.get(k, dflt)\<close> on a map, and on an association list.\<close>

definition dict_get :: "('k \<rightharpoonup> 'v) \<Rightarrow> 'k \<Rightarrow> 'v \<Rightarrow> 'v" where
  "dict_get d k dflt = (case d k of None \<Rightarrow> dflt | Some v \<Rightarrow> v)"

definition teams_of :: "groups_dict \<Rightarrow> group \<Rightarrow> team list" where
  "teams_of gf g = dict_get (map_of gf) g []"

section \<open>The confederation constraint checker (simulator.py, can_team_go_to_group)\<close>

text \<open>
  \<open>conf_counter\<close> is a \<open>defaultdict(int)\<close>: a key never written reads as 0. The two nested
  loops add one for every label of every team already in the group.
\<close>

fun tally_confs :: "conf list \<Rightarrow> (conf \<Rightarrow> nat) \<Rightarrow> (conf \<Rightarrow> nat)" where
  "tally_confs [] conf_counter = conf_counter"
| "tally_confs (c # cs) conf_counter = tally_confs cs (conf_counter(c := conf_counter c + 1))"

fun count_group_confs :: "conf_dict \<Rightarrow> team list \<Rightarrow> (conf \<Rightarrow> nat) \<Rightarrow> (conf \<Rightarrow> nat)" where
  "count_group_confs cd [] conf_counter = conf_counter"
| "count_group_confs cd (existing_team # ts) conf_counter =
     count_group_confs cd ts (tally_confs (dict_get cd existing_team []) conf_counter)"

text \<open>The last loop: the first label at its cap returns False.\<close>

fun check_confs :: "conf list \<Rightarrow> (conf \<Rightarrow> nat) \<Rightarrow> bool" where
  "check_confs [] conf_counter = True"
| "check_confs (c # cs) conf_counter =
     (if c = ''UEFA''
      then (if conf_counter c \<ge> MAX_UEFA_PER_GROUP then False else check_confs cs conf_counter)
      else (if conf_counter c \<ge> MAX_OTHER_CONF_PER_GROUP then False
            else check_confs cs conf_counter))"

definition can_team_go_to_group :: "team \<Rightarrow> group \<Rightarrow> groups_dict \<Rightarrow> conf_dict \<Rightarrow> bool" where
  "can_team_go_to_group team g gf cd =
     (let team_confederations = dict_get cd team [] in
      if team_confederations = [] then True
      else let teams_in_group = teams_of gf g;
               conf_counter = count_group_confs cd teams_in_group (\<lambda>_. 0)
           in check_confs team_confederations conf_counter)"

section \<open>The group availability resolver (simulator.py, get_available_groups_for_team)\<close>

text \<open>The loop over \<open>GROUPS\<close>, with \<open>available_groups\<close> as the accumulator.\<close>

fun available_loop ::
  "group list \<Rightarrow> team \<Rightarrow> pot_name \<Rightarrow> groups_dict \<Rightarrow> groups_filled \<Rightarrow> conf_dict
     \<Rightarrow> group list \<Rightarrow> group list" where
  "available_loop [] team pot gf filled cd available_groups = available_groups"
| "available_loop (g # gs) team pot gf filled cd available_groups =
     (if g \<in> dict_get filled pot {}
      then available_loop gs team pot gf filled cd available_groups
      else if can_team_go_to_group team g gf cd
      then available_loop gs team pot gf filled cd (available_groups @ [g])
      else available_loop gs team pot gf filled cd available_groups)"

definition get_available_groups_for_team ::
  "team \<Rightarrow> pot_name \<Rightarrow> groups_dict \<Rightarrow> groups_filled \<Rightarrow> conf_dict \<Rightarrow> group list" where
  "get_available_groups_for_team team pot gf filled cd =
     available_loop GROUPS team pot gf filled cd []"

section \<open>The randomness source\<close>

text \<open>
  The simulator calls \<open>random.shuffle\<close> and \<open>random.choice\<close> of the Python standard
  library, which read and advance the state of the global generator. The two operations
  are parameters of the model, and the generator state \<open>'r\<close> is threaded through every
  call in program order.
\<close>

record 'r randomness =
  shuffle :: "'r \<Rightarrow> team list \<Rightarrow> team list \<times> 'r"
  choice :: "'r \<Rightarrow> group list \<Rightarrow> group \<times> 'r"

text \<open>
  What the library promises: \<open>shuffle\<close> returns a permutation of its argument and
  \<open>choice\<close> returns an element of a non-empty sequence.
\<close>

definition valid_source :: "'r randomness \<Rightarrow> bool" where
  "valid_source rnd \<longleftrightarrow>
     (\<forall>r xs. mset (fst (shuffle rnd r xs)) = mset xs) \<and>
     (\<forall>r xs. xs \<noteq> [] \<longrightarrow> fst (choice rnd r xs) \<in> set xs)"

section \<open>The single-draw engine (simulator.py, simulate_single_draw)\<close>

datatype py_error = KeyError string | IndexError

record draw_state =
  groups_formed :: groups_dict
  groups_filled_by_pot :: groups_filled

text \<open>The state at the top of every attempt (lines 97 to 105).\<close>

definition init_state :: draw_state where
  "init_state =
     \<lparr>groups_formed = map (\<lambda>g. (g, [])) GROUPS,
      groups_filled_by_pot =
        [''Pot 1'' \<mapsto> {}, ''Pot 2'' \<mapsto> {}, ''Pot 3'' \<mapsto> {}, ''Pot 4'' \<mapsto> {}]\<rparr>"

text \<open>
  \<open>groups_formed[g].append(team)\<close> followed by \<open>groups_filled_by_pot[pot].add(g)\<close>; a
  subscript with a missing key raises KeyError.
\<close>

definition assign_team :: "team \<Rightarrow> pot_name \<Rightarrow> group \<Rightarrow> draw_state \<Rightarrow> py_error + draw_state" where
  "assign_team team pot g s =
     (case map_of (groups_formed s) g of
        None \<Rightarrow> Inl (KeyError g)
      | Some teams \<Rightarrow>
          (case groups_filled_by_pot s pot of
             None \<Rightarrow> Inl (KeyError pot)
           | Some filled \<Rightarrow>
               Inr (s\<lparr>groups_formed := AList.update g (teams @ [team]) (groups_formed s),
                      groups_filled_by_pot := (groups_filled_by_pot s)(pot \<mapsto> insert g filled)\<rparr>)))"

text \<open>The loop over \<open>FIXED_HOSTS.items()\<close> (lines 114 to 118).\<close>

fun place_hosts ::
  "(team \<times> group) list \<Rightarrow> team list \<Rightarrow> draw_state \<Rightarrow> py_error + (team list \<times> draw_state)" where
  "place_hosts [] pot1_teams s = Inr (pot1_teams, s)"
| "place_hosts ((host, fixed_group) # hs) pot1_teams s =
     (if host \<in> set pot1_teams
      then (case assign_team host ''Pot 1'' fixed_group s of
              Inl e \<Rightarrow> Inl e
            | Inr s' \<Rightarrow> place_hosts hs (remove1 host pot1_teams) s')
      else place_hosts hs pot1_teams s)"

text \<open>
  The loop over the teams of one pot (lines 124 to 134 for Pot 1, lines 147 to 158 for
  the other pots: the two bodies are the same). The result \<open>None\<close> is the \<open>break\<close> at a
  team with no available group.
\<close>

fun place_teams ::
  "'r randomness \<Rightarrow> conf_dict \<Rightarrow> pot_name \<Rightarrow> team list \<Rightarrow> draw_state \<Rightarrow> 'r
     \<Rightarrow> py_error + (draw_state option \<times> 'r)" where
  "place_teams rnd cd pot [] s r = Inr (Some s, r)"
| "place_teams rnd cd pot (team # ts) s r =
     (let available = get_available_groups_for_team team pot
                        (groups_formed s) (groups_filled_by_pot s) cd
      in if available = [] then Inr (None, r)
         else (case choice rnd r available of
                 (assigned_group, r') \<Rightarrow>
                   (case assign_team team pot assigned_group s of
                      Inl e \<Rightarrow> Inl e
                    | Inr s' \<Rightarrow> place_teams rnd cd pot ts s' r')))"

text \<open>The loop over \<open>['Pot 4', 'Pot 3', 'Pot 2']\<close> (lines 143 to 161).\<close>

fun draw_pots ::
  "'r randomness \<Rightarrow> conf_dict \<Rightarrow> pot_dict \<Rightarrow> pot_name list \<Rightarrow> draw_state \<Rightarrow> 'r
     \<Rightarrow> py_error + (draw_state option \<times> 'r)" where
  "draw_pots rnd cd pd [] s r = Inr (Some s, r)"
| "draw_pots rnd cd pd (pot # pots) s r =
     (case pd pot of
        None \<Rightarrow> Inl (KeyError pot)
      | Some teams \<Rightarrow>
          (case shuffle rnd r teams of
             (pot_teams, r') \<Rightarrow>
               (case place_teams rnd cd pot pot_teams s r' of
                  Inl e \<Rightarrow> Inl e
                | Inr (None, r'') \<Rightarrow> Inr (None, r'')
                | Inr (Some s', r'') \<Rightarrow> draw_pots rnd cd pd pots s' r'')))"

text \<open>One pass through the body of the attempt loop (lines 96 to 165).\<close>

definition draw_attempt ::
  "'r randomness \<Rightarrow> conf_dict \<Rightarrow> pot_dict \<Rightarrow> 'r \<Rightarrow> py_error + (draw_state option \<times> 'r)" where
  "draw_attempt rnd cd pd r =
     (case pd ''Pot 1'' of
        None \<Rightarrow> Inl (KeyError ''Pot 1'')
      | Some teams \<Rightarrow>
          (case place_hosts FIXED_HOSTS teams init_state of
             Inl e \<Rightarrow> Inl e
           | Inr (pot1_teams, s1) \<Rightarrow>
               (case shuffle rnd r pot1_teams of
                  (pot1_shuffled, r1) \<Rightarrow>
                    (case place_teams rnd cd ''Pot 1'' pot1_shuffled s1 r1 of
                       Inl e \<Rightarrow> Inl e
                     | Inr (None, r2) \<Rightarrow> Inr (None, r2)
                     | Inr (Some s2, r2) \<Rightarrow>
                         draw_pots rnd cd pd [''Pot 4'', ''Pot 3'', ''Pot 2''] s2 r2))))"

text \<open>\<open>for attempt in range(max_attempts)\<close>, and the \<open>return None\<close> after it.\<close>

fun attempts_loop ::
  "'r randomness \<Rightarrow> conf_dict \<Rightarrow> pot_dict \<Rightarrow> nat \<Rightarrow> 'r \<Rightarrow> py_error + (groups_dict option \<times> 'r)" where
  "attempts_loop rnd cd pd 0 r = Inr (None, r)"
| "attempts_loop rnd cd pd (Suc n) r =
     (case draw_attempt rnd cd pd r of
        Inl e \<Rightarrow> Inl e
      | Inr (None, r') \<Rightarrow> attempts_loop rnd cd pd n r'
      | Inr (Some s, r') \<Rightarrow> Inr (Some (groups_formed s), r'))"

text \<open>
  \<open>range(max_attempts)\<close> is empty for a non-positive \<open>max_attempts\<close>. The parameter
  \<open>df_pots\<close> of the source is not read by this function.
\<close>

definition simulate_single_draw ::
  "'r randomness \<Rightarrow> conf_dict \<Rightarrow> pot_dict \<Rightarrow> int \<Rightarrow> 'r \<Rightarrow> py_error + (groups_dict option \<times> 'r)" where
  "simulate_single_draw rnd cd pd max_attempts r = attempts_loop rnd cd pd (nat max_attempts) r"

section \<open>The mass simulation driver (simulator.py, run_mass_simulation)\<close>

text \<open>
  \<open>df_pots\<close> is read only through \<open>df_pots[df_pots['Team'] == team]['Pot'].values[0]\<close>:
  the pot of the first row of the team, IndexError when the team has no row. The rows
  are pairs of team and pot. The progress output and the clock are not modelled.
\<close>

type_synonym df_pots = "(team \<times> pot_name) list"
type_synonym combination = "team option \<times> team option \<times> team option"

record sim_stats =
  combinations :: "(combination \<times> int) list"
  successful :: int
  failed :: int

text \<open>The loop over the teams of the target's group (lines 240 to 250).\<close>

fun identify_pots ::
  "df_pots \<Rightarrow> team list \<Rightarrow> team option \<times> team option \<times> team option \<times> team option
     \<Rightarrow> py_error + (team option \<times> team option \<times> team option \<times> team option)" where
  "identify_pots df [] acc = Inr acc"
| "identify_pots df (team # ts) (pot1_team, pot2_team, pot3_team, pot4_team) =
     (case map_of df team of
        None \<Rightarrow> Inl IndexError
      | Some pot \<Rightarrow>
          if pot = ''Pot 1'' then identify_pots df ts (Some team, pot2_team, pot3_team, pot4_team)
          else if pot = ''Pot 2'' then identify_pots df ts (pot1_team, Some team, pot3_team, pot4_team)
          else if pot = ''Pot 3'' then identify_pots df ts (pot1_team, pot2_team, Some team, pot4_team)
          else if pot = ''Pot 4'' then identify_pots df ts (pot1_team, pot2_team, pot3_team, Some team)
          else identify_pots df ts (pot1_team, pot2_team, pot3_team, pot4_team))"

text \<open>\<open>combinations_counter[combination] += 1\<close> on a \<open>defaultdict(int)\<close>.\<close>

definition counter_incr :: "combination \<Rightarrow> (combination \<times> int) list \<Rightarrow> (combination \<times> int) list" where
  "counter_incr k counter = AList.update k (dict_get (map_of counter) k 0 + 1) counter"

text \<open>The loop over \<open>result.items()\<close>, left by \<open>break\<close> at the first group of the target.\<close>

fun record_target ::
  "df_pots \<Rightarrow> team \<Rightarrow> groups_dict \<Rightarrow> (combination \<times> int) list
     \<Rightarrow> py_error + (combination \<times> int) list" where
  "record_target df target_team [] counter = Inr counter"
| "record_target df target_team ((g, teams) # items) counter =
     (if target_team \<in> set teams
      then (case identify_pots df teams (None, None, None, None) of
              Inl e \<Rightarrow> Inl e
            | Inr (pot1_team, pot2_team, pot3_team, pot4_team) \<Rightarrow>
                Inr (counter_incr (pot2_team, pot3_team, pot4_team) counter))
      else record_target df target_team items counter)"

text \<open>
  One pass through the body of the simulation loop (lines 226 to 258). \<open>if result:\<close> is
  false for \<open>None\<close> and for an empty dictionary.
\<close>

definition run_one ::
  "'r randomness \<Rightarrow> df_pots \<Rightarrow> conf_dict \<Rightarrow> pot_dict \<Rightarrow> team \<Rightarrow> sim_stats \<Rightarrow> 'r
     \<Rightarrow> py_error + (sim_stats \<times> 'r)" where
  "run_one rnd df cd pd target_team st r =
     (case simulate_single_draw rnd cd pd MAX_ATTEMPTS_PER_SIMULATION r of
        Inl e \<Rightarrow> Inl e
      | Inr (None, r') \<Rightarrow> Inr (st\<lparr>failed := failed st + 1\<rparr>, r')
      | Inr (Some result, r') \<Rightarrow>
          if result = [] then Inr (st\<lparr>failed := failed st + 1\<rparr>, r')
          else (case record_target df target_team result (combinations st) of
                  Inl e \<Rightarrow> Inl e
                | Inr counter \<Rightarrow>
                    Inr (st\<lparr>successful := successful st + 1, combinations := counter\<rparr>, r')))"

fun run_loop ::
  "'r randomness \<Rightarrow> df_pots \<Rightarrow> conf_dict \<Rightarrow> pot_dict \<Rightarrow> team \<Rightarrow> nat \<Rightarrow> sim_stats \<Rightarrow> 'r
     \<Rightarrow> py_error + (sim_stats \<times> 'r)" where
  "run_loop rnd df cd pd target_team 0 st r = Inr (st, r)"
| "run_loop rnd df cd pd target_team (Suc n) st r =
     (case run_one rnd df cd pd target_team st r of
        Inl e \<Rightarrow> Inl e
      | Inr (st', r') \<Rightarrow> run_loop rnd df cd pd target_team n st' r')"

definition run_mass_simulation ::
  "'r randomness \<Rightarrow> df_pots \<Rightarrow> conf_dict \<Rightarrow> pot_dict \<Rightarrow> int \<Rightarrow> team \<Rightarrow> 'r
     \<Rightarrow> py_error + (sim_stats \<times> 'r)" where
  "run_mass_simulation rnd df cd pd num_simulations target_team r =
     run_loop rnd df cd pd target_team (nat num_simulations)
       \<lparr>combinations = [], successful = 0, failed = 0\<rparr> r"

section \<open>The checker, as the specification words it\<close>

text \<open>
  The tally of a label among the occupants of a group: one for every occurrence of the
  label in the label list of an occupant.
\<close>

definition label_tally :: "conf_dict \<Rightarrow> team list \<Rightarrow> conf \<Rightarrow> nat" where
  "label_tally cd occupants l = sum_list (map (\<lambda>t. count_list (dict_get cd t []) l) occupants)"

text \<open>The number of occupants that carry a label.\<close>

definition carriers :: "conf_dict \<Rightarrow> team list \<Rightarrow> conf \<Rightarrow> nat" where
  "carriers cd occupants l = length (filter (\<lambda>t. l \<in> set (dict_get cd t [])) occupants)"

definition cap :: "conf \<Rightarrow> nat" where
  "cap l = (if l = ''UEFA'' then 2 else 1)"

section \<open>Auxiliary notions\<close>

text \<open>
  The stub source of the determinism property: the identity permutation, and the first
  element of the candidates. It leaves the generator state as it is.
\<close>

definition first_source :: "'r randomness" where
  "first_source = \<lparr>shuffle = (\<lambda>r xs. (xs, r)), choice = (\<lambda>r xs. (hd xs, r))\<rparr>"


text \<open>A later dictionary has the keys of an earlier one and only longer groups.\<close>

definition extends :: "groups_dict \<Rightarrow> groups_dict \<Rightarrow> bool" where
  "extends gf gf' \<longleftrightarrow>
     map fst gf' = map fst gf \<and> (\<forall>g. \<exists>more. teams_of gf' g = teams_of gf g @ more)"

text \<open>
  While the teams \<open>T\<close> of pot \<open>p\<close> are placed on top of the groups \<open>base\<close>: the groups in
  the pot's filled set \<open>F\<close> have received one of the teams, the others are as in \<open>base\<close>.
\<close>

definition pot_inv :: "groups_dict \<Rightarrow> pot_name \<Rightarrow> team list \<Rightarrow> draw_state \<Rightarrow> group set \<Rightarrow> bool" where
  "pot_inv base p T s F \<longleftrightarrow>
     map fst (groups_formed s) = GROUPS \<and>
     groups_filled_by_pot s p = Some F \<and>
     F \<subseteq> set GROUPS \<and>
     (\<forall>g \<in> F. \<exists>t \<in> set T. teams_of (groups_formed s) g = teams_of base g @ [t]) \<and>
     (\<forall>g. g \<notin> F \<longrightarrow> teams_of (groups_formed s) g = teams_of base g)"

text \<open>No group holds more carriers of a label than the cap of the label.\<close>

definition conf_ok :: "conf_dict \<Rightarrow> groups_dict \<Rightarrow> bool" where
  "conf_ok cd gf \<longleftrightarrow> (\<forall>g l. carriers cd (teams_of gf g) l \<le> cap l)"


text \<open>
  The generator state after \<open>k\<close> attempts in a row that all end in a dead end, if they
  do.
\<close>

fun dead_ends :: "'r randomness \<Rightarrow> conf_dict \<Rightarrow> pot_dict \<Rightarrow> nat \<Rightarrow> 'r \<Rightarrow> 'r option" where
  "dead_ends rnd cd pd 0 r = Some r"
| "dead_ends rnd cd pd (Suc k) r =
     (case draw_attempt rnd cd pd r of
        Inr (None, r') \<Rightarrow> dead_ends rnd cd pd k r'
      | _ \<Rightarrow> None)"

section \<open>Example data\<close>

text \<open>A roster of 48 teams in four pots of 12, with the three hosts in Pot 1.\<close>

definition ex_pot1 :: "team list" where
  "ex_pot1 = [''United States'', ''Netherlands'', ''Canada'', ''Argentina'', ''Belgium'',
     ''Spain'', ''England'', ''France'', ''Portugal'', ''Mexico'', ''Germany'',
     ''Brazil'']"

definition ex_pot2 :: "team list" where
  "ex_pot2 = [''Croatia'', ''Senegal'', ''Austria'', ''Australia'', ''Iran'', ''Colombia'',
     ''Japan'', ''Morocco'', ''South Korea'', ''Switzerland'', ''Uruguay'',
     ''Ecuador'']"

definition ex_pot3 :: "team list" where
  "ex_pot3 = [''Norway'', ''Saudi Arabia'', ''Uzbekistan'', ''South Africa'', ''Tunisia'',
     ''Paraguay'', ''Panama'', ''Algeria'', ''Qatar'', ''Egypt'', ''Scotland'',
     ''Ivory Coast'']"

definition ex_pot4 :: "team list" where
  "ex_pot4 = [''Playoff UEFA 2'', ''Playoff UEFA 3'', ''Curacao'', ''New Zealand'',
     ''Playoff UEFA 4'', ''Playoff FIFA 1'', ''Cape Verde'', ''Playoff FIFA 2'',
     ''Ghana'', ''Jordan'', ''Playoff UEFA 1'', ''Haiti'']"

definition ex_pot_dict :: pot_dict where
  "ex_pot_dict =
     [''Pot 1'' \<mapsto> ex_pot1, ''Pot 2'' \<mapsto> ex_pot2, ''Pot 3'' \<mapsto> ex_pot3, ''Pot 4'' \<mapsto> ex_pot4]"

definition ex_conf_dict :: conf_dict where
  "ex_conf_dict = map_of
     [(''United States'', [''CONCACAF'']),
      (''Netherlands'', [''UEFA'']),
      (''Canada'', [''CONCACAF'']),
      (''Argentina'', [''CONMEBOL'']),
      (''Belgium'', [''UEFA'']),
      (''Spain'', [''UEFA'']),
      (''England'', [''UEFA'']),
      (''France'', [''UEFA'']),
      (''Portugal'', [''UEFA'']),
      (''Mexico'', [''CONCACAF'']),
      (''Germany'', [''UEFA'']),
      (''Brazil'', [''CONMEBOL'']),
      (''Croatia'', [''UEFA'']),
      (''Senegal'', [''CAF'']),
      (''Austria'', [''UEFA'']),
      (''Australia'', [''AFC'']),
      (''Iran'', [''AFC'']),
      (''Colombia'', [''CONMEBOL'']),
      (''Japan'', [''AFC'']),
      (''Morocco'', [''CAF'']),
      (''South Korea'', [''AFC'']),
      (''Switzerland'', [''UEFA'']),
      (''Uruguay'', [''CONMEBOL'']),
      (''Ecuador'', [''CONMEBOL'']),
      (''Norway'', [''UEFA'']),
      (''Saudi Arabia'', [''AFC'']),
      (''Uzbekistan'', [''AFC'']),
      (''South Africa'', [''CAF'']),
      (''Tunisia'', [''CAF'']),
      (''Paraguay'', [''CONMEBOL'']),
      (''Panama'', [''CONCACAF'']),
      (''Algeria'', [''CAF'']),
      (''Qatar'', [''AFC'']),
      (''Egypt'', [''CAF'']),
      (''Scotland'', [''UEFA'']),
      (''Ivory Coast'', [''CAF'']),
      (''Playoff UEFA 2'', [''UEFA'']),
      (''Playoff UEFA 3'', [''UEFA'']),
      (''Curacao'', [''CONCACAF'']),
      (''New Zealand'', [''OFC'']),
      (''Playoff UEFA 4'', [''UEFA'']),
      (''Playoff FIFA 1'', [''CONCACAF'', ''OFC'']),
      (''Cape Verde'', [''CAF'']),
      (''Playoff FIFA 2'', [''AFC'', ''CONMEBOL'']),
      (''Ghana'', [''CAF'']),
      (''Jordan'', [''AFC'']),
      (''Playoff UEFA 1'', [''UEFA'']),
      (''Haiti'', [''CONCACAF''])]"

definition ex_df_pots :: df_pots where
  "ex_df_pots =
     [(''United States'', ''Pot 1''), (''Netherlands'', ''Pot 1''), (''Canada'', ''Pot 1''),
      (''Argentina'', ''Pot 1''), (''Belgium'', ''Pot 1''), (''Spain'', ''Pot 1''),
      (''England'', ''Pot 1''), (''France'', ''Pot 1''), (''Portugal'', ''Pot 1''),
      (''Mexico'', ''Pot 1''), (''Germany'', ''Pot 1''), (''Brazil'', ''Pot 1''),
      (''Croatia'', ''Pot 2''), (''Senegal'', ''Pot 2''), (''Austria'', ''Pot 2''),
      (''Australia'', ''Pot 2''), (''Iran'', ''Pot 2''), (''Colombia'', ''Pot 2''),
      (''Japan'', ''Pot 2''), (''Morocco'', ''Pot 2''), (''South Korea'', ''Pot 2''),
      (''Switzerland'', ''Pot 2''), (''Uruguay'', ''Pot 2''), (''Ecuador'', ''Pot 2''),
      (''Norway'', ''Pot 3''), (''Saudi Arabia'', ''Pot 3''), (''Uzbekistan'', ''Pot 3''),
      (''South Africa'', ''Pot 3''), (''Tunisia'', ''Pot 3''), (''Paraguay'', ''Pot 3''),
      (''Panama'', ''Pot 3''), (''Algeria'', ''Pot 3''), (''Qatar'', ''Pot 3''),
      (''Egypt'', ''Pot 3''), (''Scotland'', ''Pot 3''), (''Ivory Coast'', ''Pot 3''),
      (''Playoff UEFA 2'', ''Pot 4''), (''Playoff UEFA 3'', ''Pot 4''), (''Curacao'', ''Pot 4''),
      (''New Zealand'', ''Pot 4''), (''Playoff UEFA 4'', ''Pot 4''), (''Playoff FIFA 1'', ''Pot 4''),
      (''Cape Verde'', ''Pot 4''), (''Playoff FIFA 2'', ''Pot 4''), (''Ghana'', ''Pot 4''),
      (''Jordan'', ''Pot 4''), (''Playoff UEFA 1'', ''Pot 4''), (''Haiti'', ''Pot 4'')]"

text \<open>The draw of the roster under \<open>first_source\<close>.\<close>

definition ex_result :: groups_dict where
  "ex_result =
     [(''A'', [''Mexico'', ''Playoff UEFA 2'', ''Norway'', ''Senegal'']),
      (''B'', [''Canada'', ''Playoff UEFA 3'', ''Saudi Arabia'', ''Croatia'']),
      (''C'', [''Netherlands'', ''Curacao'', ''Uzbekistan'', ''Austria'']),
      (''D'', [''United States'', ''New Zealand'', ''South Africa'', ''Australia'']),
      (''E'', [''Argentina'', ''Playoff UEFA 4'', ''Tunisia'', ''Iran'']),
      (''F'', [''Belgium'', ''Playoff FIFA 1'', ''Paraguay'', ''Japan'']),
      (''G'', [''Spain'', ''Cape Verde'', ''Panama'', ''Colombia'']),
      (''H'', [''England'', ''Playoff FIFA 2'', ''Algeria'', ''Switzerland'']),
      (''I'', [''France'', ''Ghana'', ''Qatar'', ''Uruguay'']),
      (''J'', [''Portugal'', ''Jordan'', ''Egypt'', ''Ecuador'']),
      (''K'', [''Germany'', ''Playoff UEFA 1'', ''Ivory Coast'', ''South Korea'']),
      (''L'', [''Brazil'', ''Haiti'', ''Scotland'', ''Morocco''])]"





text \<open>
  An over-constrained instance: twelve teams of one confederation in Pot 1 and a
  thirteenth in Pot 4, which no group admits.
\<close>

definition ov_pot1 :: "team list" where
  "ov_pot1 = [''Morocco'', ''Senegal'', ''Egypt'', ''Algeria'', ''Tunisia'', ''Ivory Coast'',
     ''South Africa'', ''Cape Verde'', ''Ghana'', ''Nigeria'', ''Cameroon'', ''Mali'']"

definition ov_pot4 :: "team list" where
  "ov_pot4 = [''DR Congo'']"

definition ov_pot_dict :: pot_dict where
  "ov_pot_dict = [''Pot 1'' \<mapsto> ov_pot1, ''Pot 2'' \<mapsto> [], ''Pot 3'' \<mapsto> [], ''Pot 4'' \<mapsto> ov_pot4]"

definition ov_conf_dict :: conf_dict where
  "ov_conf_dict = map_of (map (\<lambda>t. (t, [''CAF''])) (ov_pot1 @ ov_pot4))"

section \<open>Properties of the checker and the resolver\<close>

lemma tally_confs_eq: "tally_confs cs k l = k l + count_list cs l"
  by (induction cs arbitrary: k) auto

lemma count_group_confs_eq: "count_group_confs cd ts k l = k l + label_tally cd ts l"
  by (induction ts arbitrary: k) (auto simp: label_tally_def tally_confs_eq)

lemma check_confs_iff: "check_confs cs k \<longleftrightarrow> (\<forall>l \<in> set cs. k l < cap l)"
  by (induction cs)
    (auto simp: cap_def MAX_UEFA_PER_GROUP_def MAX_OTHER_CONF_PER_GROUP_def)

lemma can_team_go_to_group_iff:
  "can_team_go_to_group team g gf cd \<longleftrightarrow>
     (\<forall>l \<in> set (dict_get cd team []). label_tally cd (teams_of gf g) l < cap l)"
  by (auto simp: can_team_go_to_group_def Let_def check_confs_iff count_group_confs_eq)

lemma carriers_le_tally: "carriers cd ts l \<le> label_tally cd ts l"
proof (induction ts)
  case Nil
  then show ?case by (simp add: carriers_def label_tally_def)
next
  case (Cons t ts)
  have "l \<in> set (dict_get cd t []) \<Longrightarrow> 1 \<le> count_list (dict_get cd t []) l"
    using count_list_0_iff [of "dict_get cd t []" l] by (cases "count_list (dict_get cd t []) l") auto
  with Cons show ?case
    by (auto simp: carriers_def label_tally_def)
qed

lemma count_list_distinct: "distinct xs \<Longrightarrow> count_list xs x = (if x \<in> set xs then 1 else 0)"
  by (induction xs) auto

lemma tally_eq_carriers:
  "\<forall>t \<in> set ts. distinct (dict_get cd t []) \<Longrightarrow> label_tally cd ts l = carriers cd ts l"
proof (induction ts)
  case Nil
  then show ?case by (simp add: carriers_def label_tally_def)
next
  case (Cons t ts)
  have "count_list (dict_get cd t []) l = (if l \<in> set (dict_get cd t []) then 1 else 0)"
    using Cons.prems by (simp add: count_list_distinct)
  with Cons show ?case
    by (auto simp: carriers_def label_tally_def)
qed

lemma available_loop_eq:
  "available_loop gs team pot gf filled cd acc =
     acc @ filter (\<lambda>g. g \<notin> dict_get filled pot {} \<and> can_team_go_to_group team g gf cd) gs"
  by (induction gs arbitrary: acc) auto

lemma get_available_eq_filter:
  "get_available_groups_for_team team pot gf filled cd =
     filter (\<lambda>g. g \<notin> dict_get filled pot {} \<and> can_team_go_to_group team g gf cd) GROUPS"
  by (simp add: get_available_groups_for_team_def available_loop_eq)

lemma GROUPS_sorted: "sorted_wrt (<) GROUPS"
  by (simp add: GROUPS_def less_char_def)

lemma GROUPS_distinct: "distinct GROUPS"
  by (simp add: GROUPS_def)

lemma GROUPS_length: "length GROUPS = 12"
  by (simp add: GROUPS_def)

lemma hd_filter_least:
  assumes "sorted_wrt (<) xs" "x \<in> set xs" "P x"
  shows "hd (filter P xs) \<le> (x :: 'a :: linorder)"
  using assms
proof (induction xs)
  case Nil
  then show ?case by simp
next
  case (Cons a xs)
  then show ?case by (cases "P a") (auto simp: less_imp_le)
qed

section \<open>Claims about the checker and the resolver\<close>

text \<open>
  C3. \<open>can_team_go_to_group\<close> returns true if and only if the label list of the team is
  empty (as it is for a team absent from \<open>conf_dict\<close>) or, for every label the team
  carries, the tally of that label among the current occupants of the group is below 2
  for UEFA and below 1 for any other label. The tally counts every occurrence of the
  label in the label lists of the occupants, as the counter of the source does; for
  occupants with duplicate-free label lists it is the number of occupants carrying the
  label (\<open>tally_eq_carriers\<close>). The function is a function of its four arguments and its
  only result is the Boolean: the source reads the two dictionaries through \<open>get\<close> and
  iteration, and the only object it writes is the counter it creates.
\<close>

theorem can_team_go_to_group_correct:
  "can_team_go_to_group team g gf cd \<longleftrightarrow>
     dict_get cd team [] = [] \<or>
     (\<forall>l \<in> set (dict_get cd team []).
        label_tally cd (teams_of gf g) l
          < (if l = ''UEFA'' then MAX_UEFA_PER_GROUP else MAX_OTHER_CONF_PER_GROUP))"
  by (auto simp: can_team_go_to_group_iff cap_def MAX_UEFA_PER_GROUP_def
      MAX_OTHER_CONF_PER_GROUP_def)

theorem can_team_go_to_group_correct_witness:
  "dict_get [''Croatia'' \<mapsto> [''UEFA''], ''Spain'' \<mapsto> [''UEFA''], ''France'' \<mapsto> [''UEFA'']]
      ''Croatia'' [] = [''UEFA''] \<and>
   can_team_go_to_group ''Croatia'' ''A'' [(''A'', [''Spain''])]
      [''Croatia'' \<mapsto> [''UEFA''], ''Spain'' \<mapsto> [''UEFA''], ''France'' \<mapsto> [''UEFA'']] \<and>
   \<not> can_team_go_to_group ''Croatia'' ''A'' [(''A'', [''Spain'', ''France''])]
      [''Croatia'' \<mapsto> [''UEFA''], ''Spain'' \<mapsto> [''UEFA''], ''France'' \<mapsto> [''UEFA'']]"
  using can_team_go_to_group_correct [of "''Croatia''" "''A''" "[(''A'', [''Spain''])]"
      "[''Croatia'' \<mapsto> [''UEFA''], ''Spain'' \<mapsto> [''UEFA''], ''France'' \<mapsto> [''UEFA'']]"]
    can_team_go_to_group_correct [of "''Croatia''" "''A''" "[(''A'', [''Spain'', ''France''])]"
      "[''Croatia'' \<mapsto> [''UEFA''], ''Spain'' \<mapsto> [''UEFA''], ''France'' \<mapsto> [''UEFA'']]"]
  by (simp add: dict_get_def teams_of_def label_tally_def MAX_UEFA_PER_GROUP_def)

text \<open>
  C5. \<open>get_available_groups_for_team\<close> returns exactly the labels of \<open>GROUPS\<close> that are
  not in the filled set of the team's pot and that the checker admits against the
  current occupants of the group. The result is empty, for one, when every group is
  filled for the pot.
\<close>

theorem get_available_groups_for_team_correct:
  "set (get_available_groups_for_team team pot gf filled cd) =
     {g \<in> set GROUPS. g \<notin> dict_get filled pot {} \<and> can_team_go_to_group team g gf cd} \<and>
   get_available_groups_for_team team pot gf [pot \<mapsto> set GROUPS] cd = []"
  by (auto simp: get_available_eq_filter dict_get_def)

text \<open>
  C10. The result of \<open>get_available_groups_for_team\<close> has no duplicates and is a
  subsequence of \<open>GROUPS\<close>, hence in alphabetical order; the head of a non-empty result
  is an unfilled admissible group and no unfilled admissible group comes before it in
  the alphabet.
\<close>

theorem get_available_groups_for_team_ordered:
  "distinct (get_available_groups_for_team team pot gf filled cd) \<and>
   subseq (get_available_groups_for_team team pot gf filled cd) GROUPS \<and>
   sorted_wrt (<) (get_available_groups_for_team team pot gf filled cd) \<and>
   (get_available_groups_for_team team pot gf filled cd \<noteq> [] \<longrightarrow>
      hd (get_available_groups_for_team team pot gf filled cd) \<in> set GROUPS \<and>
      hd (get_available_groups_for_team team pot gf filled cd) \<notin> dict_get filled pot {} \<and>
      can_team_go_to_group team (hd (get_available_groups_for_team team pot gf filled cd)) gf cd \<and>
      (\<forall>g \<in> set GROUPS. g \<notin> dict_get filled pot {} \<and> can_team_go_to_group team g gf cd
          \<longrightarrow> hd (get_available_groups_for_team team pot gf filled cd) \<le> g))"
proof -
  let ?P = "\<lambda>g. g \<notin> dict_get filled pot {} \<and> can_team_go_to_group team g gf cd"
  let ?res = "get_available_groups_for_team team pot gf filled cd"
  have res: "?res = filter ?P GROUPS"
    by (rule get_available_eq_filter)
  have d: "distinct ?res"
    unfolding res using GROUPS_distinct by (rule distinct_filter)
  have sub: "subseq ?res GROUPS"
    unfolding res by (rule subseq_filter_left)
  have srt: "sorted_wrt (<) ?res"
    unfolding res using GROUPS_sorted by (rule sorted_wrt_filter)
  have hd_in: "hd ?res \<in> set ?res" if "?res \<noteq> []"
    using that by (rule hd_in_set)
  have least: "hd ?res \<le> g" if "g \<in> set GROUPS" "?P g" for g
    unfolding res using GROUPS_sorted that by (rule hd_filter_least)
  from hd_in have "?res \<noteq> [] \<Longrightarrow> hd ?res \<in> set GROUPS \<and> ?P (hd ?res)"
    unfolding res by auto
  with d sub srt least show ?thesis
    by blast
qed

theorem get_available_groups_for_team_ordered_witness:
  "get_available_groups_for_team ''Croatia'' ''Pot 2'' [] [''Pot 2'' \<mapsto> {''A'', ''B''}] Map.empty \<noteq> [] \<and>
   ''D'' \<in> set GROUPS \<and> ''D'' \<notin> dict_get [''Pot 2'' \<mapsto> {''A'', ''B''}] ''Pot 2'' {} \<and>
   can_team_go_to_group ''Croatia'' ''D'' [] Map.empty \<and>
   hd (get_available_groups_for_team ''Croatia'' ''Pot 2'' [] [''Pot 2'' \<mapsto> {''A'', ''B''}] Map.empty) \<le> ''D''"
  using get_available_groups_for_team_ordered
    [of "''Croatia''" "''Pot 2''" "[]" "[''Pot 2'' \<mapsto> {''A'', ''B''}]" Map.empty]
  by (simp add: get_available_groups_for_team_def GROUPS_def dict_get_def
      can_team_go_to_group_def)

section \<open>Single placements\<close>

lemma teams_of_update:
  "teams_of (AList.update g v gf) g' = (if g' = g then v else teams_of gf g')"
  by (simp add: teams_of_def dict_get_def update_conv')

lemma assign_team_Inr:
  assumes "assign_team t p g s = Inr s'"
  obtains teams F where "map_of (groups_formed s) g = Some teams"
    "groups_filled_by_pot s p = Some F"
    "groups_formed s' = AList.update g (teams @ [t]) (groups_formed s)"
    "groups_filled_by_pot s' = (groups_filled_by_pot s)(p \<mapsto> insert g F)"
  using assms by (auto simp: assign_team_def split: option.splits)

lemma assign_team_teams_of:
  assumes "assign_team t p g s = Inr s'"
  shows "teams_of (groups_formed s') g' =
     (if g' = g then teams_of (groups_formed s) g @ [t] else teams_of (groups_formed s) g')"
  using assms
  by (auto simp: assign_team_def teams_of_update split: option.splits)
     (simp add: teams_of_def dict_get_def)

lemma assign_team_keys:
  assumes "assign_team t p g s = Inr s'"
  shows "map fst (groups_formed s') = map fst (groups_formed s)"
proof -
  from assms obtain teams F where m: "map_of (groups_formed s) g = Some teams"
    and gf: "groups_formed s' = AList.update g (teams @ [t]) (groups_formed s)"
    by (rule assign_team_Inr)
  from m have "g \<in> fst ` set (groups_formed s)"
    by (metis map_of_eq_None_iff option.distinct(1))
  then show ?thesis
    unfolding gf by (simp add: update_keys)
qed

lemma assign_team_filled:
  assumes "assign_team t p g s = Inr s'"
  shows "groups_filled_by_pot s' q =
     (if q = p then Some (insert g (dict_get (groups_filled_by_pot s) p {}))
      else groups_filled_by_pot s q)"
  using assms by (auto simp: assign_team_def dict_get_def split: option.splits)


lemma extends_refl: "extends gf gf"
  by (simp add: extends_def)

lemma extends_trans: "extends a b \<Longrightarrow> extends b c \<Longrightarrow> extends a c"
  unfolding extends_def by (metis append.assoc)

lemma assign_team_extends:
  assumes "assign_team t p g s = Inr s'"
  shows "extends (groups_formed s) (groups_formed s')"
  unfolding extends_def
  using assign_team_keys [OF assms] assign_team_teams_of [OF assms] by simp

lemma extends_mem: "extends gf gf' \<Longrightarrow> t \<in> set (teams_of gf g) \<Longrightarrow> t \<in> set (teams_of gf' g)"
  unfolding extends_def by (metis Un_iff set_append)

lemma available_mem:
  "g \<in> set (get_available_groups_for_team t p gf filled cd) \<longleftrightarrow>
     g \<in> set GROUPS \<and> g \<notin> dict_get filled p {} \<and> can_team_go_to_group t g gf cd"
  by (auto simp: get_available_eq_filter)

lemma valid_choice:
  "valid_source rnd \<Longrightarrow> xs \<noteq> [] \<Longrightarrow> fst (choice rnd r xs) \<in> set xs"
  by (simp add: valid_source_def)

lemma valid_shuffle_set: "valid_source rnd \<Longrightarrow> set (fst (shuffle rnd r xs)) = set xs"
  unfolding valid_source_def by (metis mset_eq_setD)

lemma valid_shuffle_length: "valid_source rnd \<Longrightarrow> length (fst (shuffle rnd r xs)) = length xs"
  unfolding valid_source_def by (metis mset_eq_length)

text \<open>One step of the team loop that goes on to success.\<close>

lemma place_teams_Cons_success:
  assumes "place_teams rnd cd p (t # ts) s r = Inr (Some s', r')" "valid_source rnd"
  obtains g s1 r1 where
    "g \<in> set (get_available_groups_for_team t p (groups_formed s) (groups_filled_by_pot s) cd)"
    "assign_team t p g s = Inr s1"
    "place_teams rnd cd p ts s1 r1 = Inr (Some s', r')"
proof -
  let ?av = "get_available_groups_for_team t p (groups_formed s) (groups_filled_by_pot s) cd"
  from assms(1) have ne: "?av \<noteq> []"
    by (auto simp: Let_def split: if_splits)
  obtain g r1 where c: "choice rnd r ?av = (g, r1)"
    by (cases "choice rnd r ?av")
  from valid_choice [OF assms(2) ne, of r] c have "g \<in> set ?av"
    by simp
  moreover from assms(1) ne c obtain s1 where "assign_team t p g s = Inr s1"
    "place_teams rnd cd p ts s1 r1 = Inr (Some s', r')"
    by (auto simp: Let_def split: sum.splits)
  ultimately show thesis
    by (rule that)
qed

lemma draw_pots_Cons_success:
  assumes "draw_pots rnd cd pd (p # ps) s r = Inr (Some s', r')"
  obtains teams s1 r1 where "pd p = Some teams"
    "place_teams rnd cd p (fst (shuffle rnd r teams)) s (snd (shuffle rnd r teams)) = Inr (Some s1, r1)"
    "draw_pots rnd cd pd ps s1 r1 = Inr (Some s', r')"
  using assms
  by (auto split: option.splits prod.splits sum.splits)

lemma draw_attempt_success:
  assumes "draw_attempt rnd cd pd r = Inr (Some s', r')"
  obtains pot1 rest s1 s2 r2 where "pd ''Pot 1'' = Some pot1"
    "place_hosts FIXED_HOSTS pot1 init_state = Inr (rest, s1)"
    "place_teams rnd cd ''Pot 1'' (fst (shuffle rnd r rest)) s1 (snd (shuffle rnd r rest)) = Inr (Some s2, r2)"
    "draw_pots rnd cd pd [''Pot 4'', ''Pot 3'', ''Pot 2''] s2 r2 = Inr (Some s', r')"
  using assms unfolding draw_attempt_def
  by (auto split: option.splits prod.splits sum.splits)

lemma attempts_loop_success:
  assumes "attempts_loop rnd cd pd n r = Inr (Some gf, r')"
  shows "\<exists>r1 s. draw_attempt rnd cd pd r1 = Inr (Some s, r') \<and> gf = groups_formed s"
  using assms
proof (induction n arbitrary: r)
  case 0
  then show ?case by simp
next
  case (Suc n)
  then show ?case
    by (auto split: sum.splits option.splits prod.splits)
qed

section \<open>Invariants of the team loop and of the pot loop\<close>

lemma pot_inv_step:
  assumes "pot_inv base p T s F" "g \<in> set GROUPS" "g \<notin> F" "t \<in> set T"
    "assign_team t p g s = Inr s'"
  shows "pot_inv base p T s' (insert g F)"
proof -
  from assms(1) have f: "dict_get (groups_filled_by_pot s) p {} = F"
    by (simp add: pot_inv_def dict_get_def)
  show ?thesis
    using assms(1-4) f assign_team_keys [OF assms(5)] assign_team_teams_of [OF assms(5)]
      assign_team_filled [OF assms(5), of p]
    unfolding pot_inv_def by auto
qed

lemma pot_inv_finite: "pot_inv base p T s F \<Longrightarrow> finite F"
  unfolding pot_inv_def using finite_subset by blast

lemma place_teams_pot_inv:
  assumes "valid_source rnd"
  shows "place_teams rnd cd p ts s r = Inr (Some s', r') \<Longrightarrow> pot_inv base p T s F \<Longrightarrow>
    set ts \<subseteq> set T \<Longrightarrow> \<exists>F'. pot_inv base p T s' F' \<and> F \<subseteq> F' \<and> card F' = card F + length ts"
proof (induction ts arbitrary: s r F)
  case Nil
  then show ?case by auto
next
  case (Cons t ts)
  from Cons.prems(1) assms obtain g s1 r1 where
    g: "g \<in> set (get_available_groups_for_team t p (groups_formed s) (groups_filled_by_pot s) cd)"
    and a: "assign_team t p g s = Inr s1"
    and rest: "place_teams rnd cd p ts s1 r1 = Inr (Some s', r')"
    by (rule place_teams_Cons_success)
  from Cons.prems(2) have f: "dict_get (groups_filled_by_pot s) p {} = F"
    by (simp add: pot_inv_def dict_get_def)
  from g f have gG: "g \<in> set GROUPS" and gF: "g \<notin> F"
    by (simp_all add: available_mem)
  from Cons.prems(3) have "t \<in> set T" "set ts \<subseteq> set T"
    by simp_all
  from pot_inv_step [OF Cons.prems(2) gG gF \<open>t \<in> set T\<close> a]
  have inv1: "pot_inv base p T s1 (insert g F)" .
  from Cons.IH [OF rest inv1 \<open>set ts \<subseteq> set T\<close>]
  obtain F' where F': "pot_inv base p T s' F'" "insert g F \<subseteq> F'"
    "card F' = card (insert g F) + length ts"
    by blast
  from pot_inv_finite [OF Cons.prems(2)] gF have "card (insert g F) = Suc (card F)"
    by simp
  with F' show ?case
    by auto
qed

lemma place_teams_filled_other:
  assumes "valid_source rnd" "q \<noteq> p"
  shows "place_teams rnd cd p ts s r = Inr (Some s', r') \<Longrightarrow>
    groups_filled_by_pot s' q = groups_filled_by_pot s q"
proof (induction ts arbitrary: s r)
  case Nil
  then show ?case by simp
next
  case (Cons t ts)
  from Cons.prems assms(1) obtain g s1 r1 where
    a: "assign_team t p g s = Inr s1"
    and rest: "place_teams rnd cd p ts s1 r1 = Inr (Some s', r')"
    by (rule place_teams_Cons_success)
  from Cons.IH [OF rest] assign_team_filled [OF a, of q] assms(2) show ?case
    by simp
qed

lemma place_teams_extends:
  assumes "valid_source rnd"
  shows "place_teams rnd cd p ts s r = Inr (Some s', r') \<Longrightarrow>
    extends (groups_formed s) (groups_formed s')"
proof (induction ts arbitrary: s r)
  case Nil
  then show ?case by (simp add: extends_refl)
next
  case (Cons t ts)
  from Cons.prems assms obtain g s1 r1 where
    a: "assign_team t p g s = Inr s1"
    and rest: "place_teams rnd cd p ts s1 r1 = Inr (Some s', r')"
    by (rule place_teams_Cons_success)
  from assign_team_extends [OF a] Cons.IH [OF rest] show ?case
    by (rule extends_trans)
qed

lemma place_teams_placed:
  assumes "valid_source rnd"
  shows "place_teams rnd cd p ts s r = Inr (Some s', r') \<Longrightarrow> t \<in> set ts \<Longrightarrow>
    \<exists>g. t \<in> set (teams_of (groups_formed s') g)"
proof (induction ts arbitrary: s r)
  case Nil
  then show ?case by simp
next
  case (Cons x ts)
  from Cons.prems(1) assms obtain g s1 r1 where
    a: "assign_team x p g s = Inr s1"
    and rest: "place_teams rnd cd p ts s1 r1 = Inr (Some s', r')"
    by (rule place_teams_Cons_success)
  show ?case
  proof (cases "t = x")
    case True
    from assign_team_teams_of [OF a, of g] have "x \<in> set (teams_of (groups_formed s1) g)"
      by simp
    with place_teams_extends [OF assms rest] True show ?thesis
      by (auto dest: extends_mem)
  next
    case False
    with Cons.prems(2) have "t \<in> set ts" by simp
    with Cons.IH [OF rest] show ?thesis by simp
  qed
qed

lemma carriers_snoc:
  "carriers cd (ts @ [t]) l = carriers cd ts l + (if l \<in> set (dict_get cd t []) then 1 else 0)"
  by (simp add: carriers_def)

lemma conf_ok_step:
  assumes "conf_ok cd (groups_formed s)" "can_team_go_to_group t g (groups_formed s) cd"
    "assign_team t p g s = Inr s'"
  shows "conf_ok cd (groups_formed s')"
  unfolding conf_ok_def
proof (intro allI)
  fix g' l
  show "carriers cd (teams_of (groups_formed s') g') l \<le> cap l"
  proof (cases "g' = g \<and> l \<in> set (dict_get cd t [])")
    case True
    with assms(2) have "label_tally cd (teams_of (groups_formed s) g) l < cap l"
      by (simp add: can_team_go_to_group_iff)
    with carriers_le_tally [of cd "teams_of (groups_formed s) g" l]
    have "carriers cd (teams_of (groups_formed s) g) l < cap l"
      by simp
    with True show ?thesis
      by (simp add: assign_team_teams_of [OF assms(3)] carriers_snoc)
  next
    case False
    with assms(1) show ?thesis
      by (auto simp: assign_team_teams_of [OF assms(3)] carriers_snoc conf_ok_def)
  qed
qed

lemma place_teams_conf_ok:
  assumes "valid_source rnd"
  shows "place_teams rnd cd p ts s r = Inr (Some s', r') \<Longrightarrow> conf_ok cd (groups_formed s) \<Longrightarrow>
    conf_ok cd (groups_formed s')"
proof (induction ts arbitrary: s r)
  case Nil
  then show ?case by simp
next
  case (Cons t ts)
  from Cons.prems(1) assms obtain g s1 r1 where
    g: "g \<in> set (get_available_groups_for_team t p (groups_formed s) (groups_filled_by_pot s) cd)"
    and a: "assign_team t p g s = Inr s1"
    and rest: "place_teams rnd cd p ts s1 r1 = Inr (Some s', r')"
    by (rule place_teams_Cons_success)
  from g have "can_team_go_to_group t g (groups_formed s) cd"
    by (simp add: available_mem)
  from conf_ok_step [OF Cons.prems(2) this a] have "conf_ok cd (groups_formed s1)" .
  from Cons.IH [OF rest this] show ?case .
qed

text \<open>The loop over the pots.\<close>

lemma draw_pots_extends:
  assumes "valid_source rnd"
  shows "draw_pots rnd cd pd ps s r = Inr (Some s', r') \<Longrightarrow>
    extends (groups_formed s) (groups_formed s')"
proof (induction ps arbitrary: s r)
  case Nil
  then show ?case by (simp add: extends_refl)
next
  case (Cons p ps)
  from Cons.prems obtain teams s1 r1 where
    pt: "place_teams rnd cd p (fst (shuffle rnd r teams)) s (snd (shuffle rnd r teams)) = Inr (Some s1, r1)"
    and rest: "draw_pots rnd cd pd ps s1 r1 = Inr (Some s', r')"
    by (rule draw_pots_Cons_success)
  from place_teams_extends [OF assms pt] Cons.IH [OF rest] show ?case
    by (rule extends_trans)
qed

lemma draw_pots_conf_ok:
  assumes "valid_source rnd"
  shows "draw_pots rnd cd pd ps s r = Inr (Some s', r') \<Longrightarrow> conf_ok cd (groups_formed s) \<Longrightarrow>
    conf_ok cd (groups_formed s')"
proof (induction ps arbitrary: s r)
  case Nil
  then show ?case by simp
next
  case (Cons p ps)
  from Cons.prems(1) obtain teams s1 r1 where
    pt: "place_teams rnd cd p (fst (shuffle rnd r teams)) s (snd (shuffle rnd r teams)) = Inr (Some s1, r1)"
    and rest: "draw_pots rnd cd pd ps s1 r1 = Inr (Some s', r')"
    by (rule draw_pots_Cons_success)
  from place_teams_conf_ok [OF assms pt Cons.prems(2)] Cons.IH [OF rest] show ?case
    by simp
qed

lemma draw_pots_placed:
  assumes "valid_source rnd"
  shows "draw_pots rnd cd pd ps s r = Inr (Some s', r') \<Longrightarrow> p \<in> set ps \<Longrightarrow>
    pd p = Some teams \<Longrightarrow> t \<in> set teams \<Longrightarrow> \<exists>g. t \<in> set (teams_of (groups_formed s') g)"
proof (induction ps arbitrary: s r)
  case Nil
  then show ?case by simp
next
  case (Cons q ps)
  from Cons.prems(1) obtain qteams s1 r1 where q: "pd q = Some qteams"
    and pt: "place_teams rnd cd q (fst (shuffle rnd r qteams)) s (snd (shuffle rnd r qteams)) = Inr (Some s1, r1)"
    and rest: "draw_pots rnd cd pd ps s1 r1 = Inr (Some s', r')"
    by (rule draw_pots_Cons_success)
  show ?case
  proof (cases "p = q")
    case True
    with q Cons.prems(3,4) have "t \<in> set (fst (shuffle rnd r qteams))"
      by (simp add: valid_shuffle_set [OF assms])
    from place_teams_placed [OF assms pt this] obtain g
      where "t \<in> set (teams_of (groups_formed s1) g)" ..
    with draw_pots_extends [OF assms rest] show ?thesis
      by (auto dest: extends_mem)
  next
    case False
    with Cons.prems(2) have "p \<in> set ps" by simp
    from Cons.IH [OF rest this Cons.prems(3,4)] show ?thesis .
  qed
qed

section \<open>The placement of the fixed hosts\<close>

lemma place_hosts_Cons:
  assumes "place_hosts ((h, g) # hs) pot1 s = Inr (rest, s')"
  obtains (placed) s1 where "h \<in> set pot1" "assign_team h ''Pot 1'' g s = Inr s1"
      "place_hosts hs (remove1 h pot1) s1 = Inr (rest, s')"
    | (skipped) "h \<notin> set pot1" "place_hosts hs pot1 s = Inr (rest, s')"
  using assms by (auto split: if_splits sum.splits)

lemma place_hosts_extends:
  "place_hosts hs pot1 s = Inr (rest, s') \<Longrightarrow> extends (groups_formed s) (groups_formed s')"
proof (induction hs arbitrary: pot1 s)
  case Nil
  then show ?case by (simp add: extends_refl)
next
  case (Cons hg hs)
  obtain h g where hg: "hg = (h, g)" by (cases hg)
  from Cons.prems [unfolded hg] show ?case
  proof (cases rule: place_hosts_Cons)
    case (placed s1)
    from assign_team_extends [OF placed(2)] Cons.IH [OF placed(3)] show ?thesis
      by (rule extends_trans)
  next
    case skipped
    from Cons.IH [OF skipped(2)] show ?thesis .
  qed
qed

lemma place_hosts_filled_other:
  assumes "q \<noteq> ''Pot 1''"
  shows "place_hosts hs pot1 s = Inr (rest, s') \<Longrightarrow>
    groups_filled_by_pot s' q = groups_filled_by_pot s q"
proof (induction hs arbitrary: pot1 s)
  case Nil
  then show ?case by simp
next
  case (Cons hg hs)
  obtain h g where hg: "hg = (h, g)" by (cases hg)
  from Cons.prems [unfolded hg] show ?case
  proof (cases rule: place_hosts_Cons)
    case (placed s1)
    from assign_team_filled [OF placed(2), of q] Cons.IH [OF placed(3)] assms show ?thesis
      by simp
  next
    case skipped
    from Cons.IH [OF skipped(2)] show ?thesis .
  qed
qed

lemma place_hosts_rest: "place_hosts hs pot1 s = Inr (rest, s') \<Longrightarrow> set rest \<subseteq> set pot1"
proof (induction hs arbitrary: pot1 s)
  case Nil
  then show ?case by simp
next
  case (Cons hg hs)
  obtain h g where hg: "hg = (h, g)" by (cases hg)
  from Cons.prems [unfolded hg] show ?case
  proof (cases rule: place_hosts_Cons)
    case (placed s1)
    from Cons.IH [OF placed(3)] set_remove1_subset [of h pot1] show ?thesis
      by blast
  next
    case skipped
    from Cons.IH [OF skipped(2)] show ?thesis .
  qed
qed

lemma place_hosts_placed:
  "place_hosts hs pot1 s = Inr (rest, s') \<Longrightarrow> t \<in> set pot1 \<Longrightarrow>
    t \<in> set rest \<or> (\<exists>g. t \<in> set (teams_of (groups_formed s') g))"
proof (induction hs arbitrary: pot1 s)
  case Nil
  then show ?case by simp
next
  case (Cons hg hs)
  obtain h g where hg: "hg = (h, g)" by (cases hg)
  from Cons.prems(1) [unfolded hg] show ?case
  proof (cases rule: place_hosts_Cons)
    case (placed s1)
    show ?thesis
    proof (cases "t \<in> set (remove1 h pot1)")
      case True
      from Cons.IH [OF placed(3) True] show ?thesis .
    next
      case False
      with Cons.prems(2) have "t = h"
        by (metis in_set_remove1)
      with assign_team_teams_of [OF placed(2), of g]
      have "t \<in> set (teams_of (groups_formed s1) g)"
        by simp
      with place_hosts_extends [OF placed(3)] show ?thesis
        by (auto dest: extends_mem)
    qed
  next
    case skipped
    from Cons.IH [OF skipped(2) Cons.prems(2)] show ?thesis .
  qed
qed

lemma place_hosts_pot_inv:
  "place_hosts hs pot1 s = Inr (rest, s') \<Longrightarrow> pot_inv base ''Pot 1'' T s F \<Longrightarrow>
   set pot1 \<subseteq> set T \<Longrightarrow> distinct (map snd hs) \<Longrightarrow> set (map snd hs) \<subseteq> set GROUPS - F \<Longrightarrow>
   \<exists>F'. pot_inv base ''Pot 1'' T s' F' \<and> card F' + length rest = card F + length pot1"
proof (induction hs arbitrary: pot1 s F)
  case Nil
  then show ?case by auto
next
  case (Cons hg hs)
  obtain h g where hg: "hg = (h, g)" by (cases hg)
  from Cons.prems(4,5) hg have g: "g \<in> set GROUPS" "g \<notin> F" "g \<notin> set (map snd hs)"
    and d: "distinct (map snd hs)" and sub: "set (map snd hs) \<subseteq> set GROUPS - F"
    by auto
  from Cons.prems(1) [unfolded hg] show ?case
  proof (cases rule: place_hosts_Cons)
    case (placed s1)
    from placed(1) Cons.prems(3) have hT: "h \<in> set T" by blast
    from pot_inv_step [OF Cons.prems(2) g(1,2) hT placed(2)]
    have inv1: "pot_inv base ''Pot 1'' T s1 (insert g F)" .
    from Cons.prems(3) set_remove1_subset [of h pot1] have "set (remove1 h pot1) \<subseteq> set T"
      by blast
    moreover from sub g(3) have "set (map snd hs) \<subseteq> set GROUPS - insert g F"
      by auto
    ultimately obtain F' where F': "pot_inv base ''Pot 1'' T s' F'"
      "card F' + length rest = card (insert g F) + length (remove1 h pot1)"
      using Cons.IH [OF placed(3) inv1 _ d] by blast
    from pot_inv_finite [OF Cons.prems(2)] g(2) have "card (insert g F) = Suc (card F)"
      by simp
    moreover from placed(1) have "length pot1 = Suc (length (remove1 h pot1))"
      by (simp add: length_remove1) (metis Suc_pred length_pos_if_in_set)
    ultimately show ?thesis
      using F' by auto
  next
    case skipped
    from Cons.IH [OF skipped(2) Cons.prems(2,3) d sub] show ?thesis .
  qed
qed




text \<open>The constants.\<close>

lemma GROUPS_card: "card (set GROUPS) = 12"
  using GROUPS_distinct GROUPS_length by (simp add: distinct_card)

lemma FIXED_HOSTS_facts:
  "distinct (map fst FIXED_HOSTS)" "distinct (map snd FIXED_HOSTS)"
  "set (map snd FIXED_HOSTS) \<subseteq> set GROUPS"
  by (simp_all add: FIXED_HOSTS_def GROUPS_def)

lemma init_state_keys: "map fst (groups_formed init_state) = GROUPS"
  by (simp add: init_state_def comp_def)

lemma teams_of_empty_groups: "teams_of (map (\<lambda>g. (g, [])) gs) g = []"
  by (induction gs) (auto simp: teams_of_def dict_get_def)

lemma init_state_teams: "teams_of (groups_formed init_state) g = []"
  by (simp add: init_state_def teams_of_empty_groups)

lemma init_state_filled:
  "p \<in> {''Pot 1'', ''Pot 2'', ''Pot 3'', ''Pot 4''} \<Longrightarrow> groups_filled_by_pot init_state p = Some {}"
  by (auto simp: init_state_def)

lemma init_pot_inv: "pot_inv (groups_formed init_state) ''Pot 1'' T init_state {}"
  by (simp add: pot_inv_def init_state_keys init_state_filled)


section \<open>One attempt\<close>

lemma map_of_teams_of: "g \<in> set (map fst gf) \<Longrightarrow> map_of gf g = Some (teams_of gf g)"
  by (cases "map_of gf g") (auto simp: teams_of_def dict_get_def map_of_eq_None_iff)

lemma teams_of_mem_items:
  assumes "t \<in> set (teams_of gf g)"
  shows "\<exists>teams. (g, teams) \<in> set gf \<and> t \<in> set teams"
proof (cases "map_of gf g")
  case None
  with assms show ?thesis by (simp add: teams_of_def dict_get_def)
next
  case (Some teams)
  with assms have "t \<in> set teams" by (simp add: teams_of_def dict_get_def)
  with map_of_SomeD [OF Some] show ?thesis by blast
qed

lemma full_pot_phase:
  assumes "valid_source rnd" "place_teams rnd cd p ts s r = Inr (Some s', r')"
    "map fst (groups_formed s) = GROUPS" "groups_filled_by_pot s p = Some {}" "length ts = 12"
  shows "map fst (groups_formed s') = GROUPS \<and>
    (\<forall>g \<in> set GROUPS. \<exists>t \<in> set ts.
       teams_of (groups_formed s') g = teams_of (groups_formed s) g @ [t])"
proof -
  from assms(3,4) have "pot_inv (groups_formed s) p ts s {}"
    by (simp add: pot_inv_def)
  from place_teams_pot_inv [OF assms(1,2) this] assms(5)
  obtain F where F: "pot_inv (groups_formed s) p ts s' F" "card F = 12"
    by auto
  then have "F \<subseteq> set GROUPS" by (simp add: pot_inv_def)
  with F(2) GROUPS_card have "F = set GROUPS"
    by (simp add: card_subset_eq)
  with F(1) show ?thesis
    by (simp add: pot_inv_def)
qed

lemma seeded_pot_phase:
  assumes "valid_source rnd" "place_hosts FIXED_HOSTS pot1 init_state = Inr (rest, s1)"
    "place_teams rnd cd ''Pot 1'' (fst (shuffle rnd r rest)) s1 (snd (shuffle rnd r rest))
       = Inr (Some s2, r2)"
    "length pot1 = 12"
  shows "map fst (groups_formed s2) = GROUPS \<and>
    (\<forall>g \<in> set GROUPS. \<exists>t \<in> set pot1. teams_of (groups_formed s2) g = [t])"
proof -
  let ?base = "groups_formed init_state"
  have "set (map snd FIXED_HOSTS) \<subseteq> set GROUPS - {}"
    using FIXED_HOSTS_facts(3) by simp
  from place_hosts_pot_inv [OF assms(2) init_pot_inv subset_refl FIXED_HOSTS_facts(2) this]
  obtain F1 where F1: "pot_inv ?base ''Pot 1'' pot1 s1 F1" "card F1 + length rest = length pot1"
    by auto
  from place_hosts_rest [OF assms(2)] valid_shuffle_set [OF assms(1), of r rest]
  have "set (fst (shuffle rnd r rest)) \<subseteq> set pot1"
    by simp
  from place_teams_pot_inv [OF assms(1,3) F1(1) this]
  obtain F2 where F2: "pot_inv ?base ''Pot 1'' pot1 s2 F2"
    "card F2 = card F1 + length (fst (shuffle rnd r rest))"
    by auto
  from F2(2) F1(2) assms(4) valid_shuffle_length [OF assms(1), of r rest]
  have "card F2 = 12" by simp
  moreover from F2(1) have "F2 \<subseteq> set GROUPS" by (simp add: pot_inv_def)
  ultimately have "F2 = set GROUPS"
    using GROUPS_card by (simp add: card_subset_eq)
  with F2(1) show ?thesis
    by (simp add: pot_inv_def init_state_teams)
qed

lemma draw_attempt_shape:
  assumes "valid_source rnd" "draw_attempt rnd cd pd r = Inr (Some s', r')"
    "pd ''Pot 1'' = Some pot1" "pd ''Pot 2'' = Some pot2"
    "pd ''Pot 3'' = Some pot3" "pd ''Pot 4'' = Some pot4"
    "length pot1 = 12" "length pot2 = 12" "length pot3 = 12" "length pot4 = 12"
  shows "map fst (groups_formed s') = GROUPS \<and>
    (\<forall>g \<in> set GROUPS. \<exists>t1 \<in> set pot1. \<exists>t4 \<in> set pot4. \<exists>t3 \<in> set pot3. \<exists>t2 \<in> set pot2.
       teams_of (groups_formed s') g = [t1, t4, t3, t2])"
proof -
  from assms(2) obtain pot1' rest s1 s2 r2 where "pd ''Pot 1'' = Some pot1'"
    and hosts': "place_hosts FIXED_HOSTS pot1' init_state = Inr (rest, s1)"
    and p1: "place_teams rnd cd ''Pot 1'' (fst (shuffle rnd r rest)) s1 (snd (shuffle rnd r rest))
       = Inr (Some s2, r2)"
    and dp: "draw_pots rnd cd pd [''Pot 4'', ''Pot 3'', ''Pot 2''] s2 r2 = Inr (Some s', r')"
    by (rule draw_attempt_success)
  with assms(3) have hosts: "place_hosts FIXED_HOSTS pot1 init_state = Inr (rest, s1)"
    by simp
  from dp obtain pot4' s3 r3 where "pd ''Pot 4'' = Some pot4'"
    and p4': "place_teams rnd cd ''Pot 4'' (fst (shuffle rnd r2 pot4')) s2 (snd (shuffle rnd r2 pot4'))
       = Inr (Some s3, r3)"
    and dp3: "draw_pots rnd cd pd [''Pot 3'', ''Pot 2''] s3 r3 = Inr (Some s', r')"
    by (rule draw_pots_Cons_success)
  with assms(6) have
    p4: "place_teams rnd cd ''Pot 4'' (fst (shuffle rnd r2 pot4)) s2 (snd (shuffle rnd r2 pot4))
       = Inr (Some s3, r3)"
    by simp
  from dp3 obtain pot3' s4 r4 where "pd ''Pot 3'' = Some pot3'"
    and p3': "place_teams rnd cd ''Pot 3'' (fst (shuffle rnd r3 pot3')) s3 (snd (shuffle rnd r3 pot3'))
       = Inr (Some s4, r4)"
    and dp2: "draw_pots rnd cd pd [''Pot 2''] s4 r4 = Inr (Some s', r')"
    by (rule draw_pots_Cons_success)
  with assms(5) have
    p3: "place_teams rnd cd ''Pot 3'' (fst (shuffle rnd r3 pot3)) s3 (snd (shuffle rnd r3 pot3))
       = Inr (Some s4, r4)"
    by simp
  from dp2 obtain pot2' s5 r5 where "pd ''Pot 2'' = Some pot2'"
    and p2': "place_teams rnd cd ''Pot 2'' (fst (shuffle rnd r4 pot2')) s4 (snd (shuffle rnd r4 pot2'))
       = Inr (Some s5, r5)"
    and dp1: "draw_pots rnd cd pd [] s5 r5 = Inr (Some s', r')"
    by (rule draw_pots_Cons_success)
  with assms(4) have
    p2: "place_teams rnd cd ''Pot 2'' (fst (shuffle rnd r4 pot2)) s4 (snd (shuffle rnd r4 pot2))
       = Inr (Some s5, r5)"
    by simp
  from dp1 have s5: "s5 = s'" by simp
  note vs = valid_shuffle_set [OF assms(1)] and vl = valid_shuffle_length [OF assms(1)]
  have f1: "groups_filled_by_pot s2 q = Some {}" if "q \<in> {''Pot 2'', ''Pot 3'', ''Pot 4''}" for q
    using that place_hosts_filled_other [OF _ hosts, of q]
      place_teams_filled_other [OF assms(1) _ p1, of q] init_state_filled [of q]
    by auto
  have f4: "groups_filled_by_pot s3 q = Some {}" if "q \<in> {''Pot 2'', ''Pot 3''}" for q
    using that place_teams_filled_other [OF assms(1) _ p4, of q] f1 [of q]
    by auto
  have f3: "groups_filled_by_pot s4 ''Pot 2'' = Some {}"
    using place_teams_filled_other [OF assms(1) _ p3, of "''Pot 2''"] f4 [of "''Pot 2''"]
    by auto
  from seeded_pot_phase [OF assms(1) hosts p1 assms(7)]
  have k2: "map fst (groups_formed s2) = GROUPS"
    and t2: "\<forall>g \<in> set GROUPS. \<exists>t \<in> set pot1. teams_of (groups_formed s2) g = [t]"
    by simp_all
  from full_pot_phase [OF assms(1) p4 k2 f1] assms(10)
  have k3: "map fst (groups_formed s3) = GROUPS"
    and t3: "\<forall>g \<in> set GROUPS. \<exists>t \<in> set pot4.
       teams_of (groups_formed s3) g = teams_of (groups_formed s2) g @ [t]"
    by (simp_all add: vs vl)
  from full_pot_phase [OF assms(1) p3 k3 f4] assms(9)
  have k4: "map fst (groups_formed s4) = GROUPS"
    and t4: "\<forall>g \<in> set GROUPS. \<exists>t \<in> set pot3.
       teams_of (groups_formed s4) g = teams_of (groups_formed s3) g @ [t]"
    by (simp_all add: vs vl)
  from full_pot_phase [OF assms(1) p2 k4 f3] assms(8)
  have k5: "map fst (groups_formed s5) = GROUPS"
    and t5: "\<forall>g \<in> set GROUPS. \<exists>t \<in> set pot2.
       teams_of (groups_formed s5) g = teams_of (groups_formed s4) g @ [t]"
    by (simp_all add: vs vl)
  have "\<exists>t1 \<in> set pot1. \<exists>t4 \<in> set pot4. \<exists>t3 \<in> set pot3. \<exists>t2 \<in> set pot2.
       teams_of (groups_formed s5) g = [t1, t4, t3, t2]" if g: "g \<in> set GROUPS" for g
  proof -
    from t2 g obtain a where a: "a \<in> set pot1" "teams_of (groups_formed s2) g = [a]" by blast
    from t3 g obtain b where b: "b \<in> set pot4"
      "teams_of (groups_formed s3) g = teams_of (groups_formed s2) g @ [b]" by blast
    from t4 g obtain c where c: "c \<in> set pot3"
      "teams_of (groups_formed s4) g = teams_of (groups_formed s3) g @ [c]" by blast
    from t5 g obtain d where d: "d \<in> set pot2"
      "teams_of (groups_formed s5) g = teams_of (groups_formed s4) g @ [d]" by blast
    from a b c d show ?thesis by simp
  qed
  with k5 s5 show ?thesis by blast
qed

lemma draw_attempt_conf_ok:
  assumes "valid_source rnd" "draw_attempt rnd cd pd r = Inr (Some s', r')"
  shows "conf_ok cd (groups_formed s')"
proof -
  from assms(2) obtain pot1 rest s1 s2 r2 where
    hosts: "place_hosts FIXED_HOSTS pot1 init_state = Inr (rest, s1)"
    and p1: "place_teams rnd cd ''Pot 1'' (fst (shuffle rnd r rest)) s1 (snd (shuffle rnd r rest))
       = Inr (Some s2, r2)"
    and dp: "draw_pots rnd cd pd [''Pot 4'', ''Pot 3'', ''Pot 2''] s2 r2 = Inr (Some s', r')"
    by (rule draw_attempt_success)
  let ?base = "groups_formed init_state"
  have "set (map snd FIXED_HOSTS) \<subseteq> set GROUPS - {}"
    using FIXED_HOSTS_facts(3) by simp
  from place_hosts_pot_inv [OF hosts init_pot_inv subset_refl FIXED_HOSTS_facts(2) this]
  obtain F1 where F1: "pot_inv ?base ''Pot 1'' pot1 s1 F1"
    by auto
  have "carriers cd (teams_of (groups_formed s1) g) l \<le> cap l" for g l
  proof (cases "g \<in> F1")
    case True
    with F1 obtain t where "teams_of (groups_formed s1) g = [t]"
      by (auto simp: pot_inv_def init_state_teams)
    then show ?thesis by (simp add: carriers_def cap_def)
  next
    case False
    with F1 have "teams_of (groups_formed s1) g = []"
      by (simp add: pot_inv_def init_state_teams)
    then show ?thesis by (simp add: carriers_def)
  qed
  then have "conf_ok cd (groups_formed s1)"
    by (simp add: conf_ok_def)
  from place_teams_conf_ok [OF assms(1) p1 this] have "conf_ok cd (groups_formed s2)" .
  from draw_pots_conf_ok [OF assms(1) dp this] show ?thesis .
qed


lemma draw_attempt_placed:
  assumes "valid_source rnd" "draw_attempt rnd cd pd r = Inr (Some s', r')"
    "p \<in> {''Pot 1'', ''Pot 2'', ''Pot 3'', ''Pot 4''}" "pd p = Some teams" "t \<in> set teams"
  shows "\<exists>g. t \<in> set (teams_of (groups_formed s') g)"
proof -
  from assms(2) obtain pot1 rest s1 s2 r2 where pot1: "pd ''Pot 1'' = Some pot1"
    and hosts: "place_hosts FIXED_HOSTS pot1 init_state = Inr (rest, s1)"
    and p1: "place_teams rnd cd ''Pot 1'' (fst (shuffle rnd r rest)) s1 (snd (shuffle rnd r rest))
       = Inr (Some s2, r2)"
    and dp: "draw_pots rnd cd pd [''Pot 4'', ''Pot 3'', ''Pot 2''] s2 r2 = Inr (Some s', r')"
    by (rule draw_attempt_success)
  show ?thesis
  proof (cases "p = ''Pot 1''")
    case True
    with assms(4,5) pot1 have "t \<in> set pot1" by simp
    from place_hosts_placed [OF hosts this]
    have "\<exists>g. t \<in> set (teams_of (groups_formed s2) g)"
    proof
      assume "t \<in> set rest"
      then have "t \<in> set (fst (shuffle rnd r rest))"
        by (simp add: valid_shuffle_set [OF assms(1)])
      from place_teams_placed [OF assms(1) p1 this] show ?thesis .
    next
      assume "\<exists>g. t \<in> set (teams_of (groups_formed s1) g)"
      with place_teams_extends [OF assms(1) p1] show ?thesis
        by (auto dest: extends_mem)
    qed
    with draw_pots_extends [OF assms(1) dp] show ?thesis
      by (auto dest: extends_mem)
  next
    case False
    with assms(3) have "p \<in> set [''Pot 4'', ''Pot 3'', ''Pot 2'']" by auto
    from draw_pots_placed [OF assms(1) dp this assms(4,5)] show ?thesis .
  qed
qed

section \<open>The example draws\<close>

lemma valid_first_source: "valid_source first_source"
  by (simp add: valid_source_def first_source_def)

lemma attempts_loop_first_success:
  "draw_attempt rnd cd pd r = Inr (Some s, r') \<Longrightarrow> 0 < n \<Longrightarrow>
    attempts_loop rnd cd pd n r = Inr (Some (groups_formed s), r')"
  by (cases n) simp_all

lemma ex_draw:
  "simulate_single_draw first_source ex_conf_dict ex_pot_dict 1 () = Inr (Some ex_result, ())"
  by code_simp


lemma ex_pot_dict_simps:
  "ex_pot_dict ''Pot 1'' = Some ex_pot1" "ex_pot_dict ''Pot 2'' = Some ex_pot2"
  "ex_pot_dict ''Pot 3'' = Some ex_pot3" "ex_pot_dict ''Pot 4'' = Some ex_pot4"
  by (simp_all add: ex_pot_dict_def)

lemma ex_pot_lengths:
  "length ex_pot1 = 12" "length ex_pot2 = 12" "length ex_pot3 = 12" "length ex_pot4 = 12"
  by (simp_all add: ex_pot1_def ex_pot2_def ex_pot3_def ex_pot4_def)

section \<open>Claims about the single-draw engine\<close>

text \<open>
  C1. With four pots of 12 teams each and a randomness source that keeps the promises of
  the library, every assignment that \<open>simulate_single_draw\<close> returns has the 12 groups
  of \<open>GROUPS\<close> as its keys, and every group holds exactly four teams: one of Pot 1, then
  one of Pot 4, one of Pot 3 and one of Pot 2.
\<close>

theorem successful_draw_one_team_per_pot:
  assumes "valid_source rnd"
    and "pd ''Pot 1'' = Some pot1" "pd ''Pot 2'' = Some pot2"
      "pd ''Pot 3'' = Some pot3" "pd ''Pot 4'' = Some pot4"
    and "length pot1 = 12" "length pot2 = 12" "length pot3 = 12" "length pot4 = 12"
    and "simulate_single_draw rnd cd pd max_attempts r = Inr (Some result, r')"
  shows "map fst result = GROUPS \<and>
    (\<forall>g \<in> set GROUPS. \<exists>t1 \<in> set pot1. \<exists>t4 \<in> set pot4. \<exists>t3 \<in> set pot3. \<exists>t2 \<in> set pot2.
       map_of result g = Some [t1, t4, t3, t2])"
proof -
  from assms(10) obtain r1 s where a: "draw_attempt rnd cd pd r1 = Inr (Some s, r')"
    and res: "result = groups_formed s"
    unfolding simulate_single_draw_def by (auto dest: attempts_loop_success)
  from draw_attempt_shape [OF assms(1) a assms(2-9)]
  have k: "map fst result = GROUPS"
    and t: "\<forall>g \<in> set GROUPS. \<exists>t1 \<in> set pot1. \<exists>t4 \<in> set pot4. \<exists>t3 \<in> set pot3. \<exists>t2 \<in> set pot2.
       teams_of result g = [t1, t4, t3, t2]"
    unfolding res by simp_all
  from k have "map_of result g = Some (teams_of result g)" if "g \<in> set GROUPS" for g
    using that by (simp add: map_of_teams_of)
  with k t show ?thesis
    by simp
qed

theorem successful_draw_one_team_per_pot_witness:
  "valid_source (first_source :: unit randomness) \<and>
   ex_pot_dict ''Pot 1'' = Some ex_pot1 \<and> ex_pot_dict ''Pot 2'' = Some ex_pot2 \<and>
   ex_pot_dict ''Pot 3'' = Some ex_pot3 \<and> ex_pot_dict ''Pot 4'' = Some ex_pot4 \<and>
   length ex_pot1 = 12 \<and> length ex_pot2 = 12 \<and> length ex_pot3 = 12 \<and> length ex_pot4 = 12 \<and>
   simulate_single_draw first_source ex_conf_dict ex_pot_dict 1 () = Inr (Some ex_result, ()) \<and>
   map fst ex_result = GROUPS \<and>
   (\<exists>t1 \<in> set ex_pot1. \<exists>t4 \<in> set ex_pot4. \<exists>t3 \<in> set ex_pot3. \<exists>t2 \<in> set ex_pot2.
       map_of ex_result ''A'' = Some [t1, t4, t3, t2])"
proof -
  have "''A'' \<in> set GROUPS"
    by (simp add: GROUPS_def)
  with successful_draw_one_team_per_pot
    [OF valid_first_source ex_pot_dict_simps ex_pot_lengths ex_draw]
  show ?thesis
    using valid_first_source ex_pot_dict_simps ex_pot_lengths ex_draw by blast
qed

text \<open>
  C2. In every assignment that \<open>simulate_single_draw\<close> returns, every group, the groups
  of the fixed hosts included, holds at most 2 teams that carry the label UEFA and at
  most 1 team that carries any other label; a team with several labels counts under each
  of them.
\<close>

theorem successful_draw_confederation_caps:
  assumes "valid_source rnd"
    and "simulate_single_draw rnd cd pd max_attempts r = Inr (Some result, r')"
  shows "carriers cd (teams_of result g) l
    \<le> (if l = ''UEFA'' then MAX_UEFA_PER_GROUP else MAX_OTHER_CONF_PER_GROUP)"
proof -
  from assms(2) obtain r1 s where a: "draw_attempt rnd cd pd r1 = Inr (Some s, r')"
    and res: "result = groups_formed s"
    unfolding simulate_single_draw_def by (auto dest: attempts_loop_success)
  from draw_attempt_conf_ok [OF assms(1) a] res
  have "carriers cd (teams_of result g) l \<le> cap l"
    by (simp add: conf_ok_def)
  then show ?thesis
    by (simp add: cap_def MAX_UEFA_PER_GROUP_def MAX_OTHER_CONF_PER_GROUP_def split: if_splits)
qed

theorem successful_draw_confederation_caps_witness:
  "valid_source (first_source :: unit randomness) \<and>
   simulate_single_draw first_source ex_conf_dict ex_pot_dict 1 () = Inr (Some ex_result, ()) \<and>
   teams_of ex_result ''H'' = [''England'', ''Playoff FIFA 2'', ''Algeria'', ''Switzerland''] \<and>
   carriers ex_conf_dict (teams_of ex_result ''H'') ''UEFA'' = 2 \<and>
   carriers ex_conf_dict (teams_of ex_result ''H'') ''UEFA'' \<le> MAX_UEFA_PER_GROUP"
proof -
  have t: "teams_of ex_result ''H'' = [''England'', ''Playoff FIFA 2'', ''Algeria'', ''Switzerland'']"
    by (simp add: ex_result_def teams_of_def dict_get_def)
  have c: "carriers ex_conf_dict [''England'', ''Playoff FIFA 2'', ''Algeria'', ''Switzerland''] ''UEFA'' = 2"
    by (simp add: carriers_def ex_conf_dict_def dict_get_def)
  from successful_draw_confederation_caps [OF valid_first_source ex_draw, of "''H''" "''UEFA''"]
  show ?thesis
    using valid_first_source ex_draw t c by simp
qed




section \<open>The order of the pots\<close>




section \<open>The attempt loop\<close>

lemma attempts_loop_None_iff:
  "attempts_loop rnd cd pd n r = Inr (None, r') \<longleftrightarrow> dead_ends rnd cd pd n r = Some r'"
proof (induction n arbitrary: r)
  case 0
  then show ?case by auto
next
  case (Suc n)
  then show ?case
    by (auto split: sum.splits option.splits prod.splits)
qed

lemma attempts_loop_Some_iff:
  "attempts_loop rnd cd pd n r = Inr (Some result, r') \<longleftrightarrow>
     (\<exists>k < n. \<exists>rk s. dead_ends rnd cd pd k r = Some rk \<and>
        draw_attempt rnd cd pd rk = Inr (Some s, r') \<and> result = groups_formed s)"
proof (induction n arbitrary: r)
  case 0
  then show ?case by simp
next
  case (Suc n)
  show ?case
  proof (cases "draw_attempt rnd cd pd r")
    case (Inl e)
    have "\<not> (\<exists>k < Suc n. \<exists>rk s. dead_ends rnd cd pd k r = Some rk \<and>
        draw_attempt rnd cd pd rk = Inr (Some s, r') \<and> result = groups_formed s)"
    proof
      assume "\<exists>k < Suc n. \<exists>rk s. dead_ends rnd cd pd k r = Some rk \<and>
        draw_attempt rnd cd pd rk = Inr (Some s, r') \<and> result = groups_formed s"
      then obtain k rk s where "dead_ends rnd cd pd k r = Some rk"
        "draw_attempt rnd cd pd rk = Inr (Some s, r')"
        by blast
      with Inl show False by (cases k) auto
    qed
    with Inl show ?thesis by simp
  next
    case (Inr x)
    obtain o1 r1 where x: "x = (o1, r1)" by (cases x)
    show ?thesis
    proof (cases o1)
      case None
      with Inr x have d: "draw_attempt rnd cd pd r = Inr (None, r1)" by simp
      have "(\<exists>k < Suc n. \<exists>rk s. dead_ends rnd cd pd k r = Some rk \<and>
          draw_attempt rnd cd pd rk = Inr (Some s, r') \<and> result = groups_formed s) \<longleftrightarrow>
        (\<exists>k < n. \<exists>rk s. dead_ends rnd cd pd k r1 = Some rk \<and>
          draw_attempt rnd cd pd rk = Inr (Some s, r') \<and> result = groups_formed s)"
        (is "?L \<longleftrightarrow> ?R")
      proof
        assume ?L
        then obtain k rk s where k: "k < Suc n" "dead_ends rnd cd pd k r = Some rk"
          "draw_attempt rnd cd pd rk = Inr (Some s, r')" "result = groups_formed s"
          by blast
        show ?R
        proof (cases k)
          case 0
          with k d show ?thesis by simp
        next
          case (Suc k')
          with k d have "k' < n" "dead_ends rnd cd pd k' r1 = Some rk" by simp_all
          with k(3,4) show ?thesis by blast
        qed
      next
        assume ?R
        then obtain k rk s where k: "k < n" "dead_ends rnd cd pd k r1 = Some rk"
          "draw_attempt rnd cd pd rk = Inr (Some s, r')" "result = groups_formed s"
          by blast
        with d have "Suc k < Suc n" "dead_ends rnd cd pd (Suc k) r = Some rk" by simp_all
        with k(3,4) show ?L by blast
      qed
      with d Suc.IH [of r1] show ?thesis by simp
    next
      case (Some s0)
      with Inr x have d: "draw_attempt rnd cd pd r = Inr (Some s0, r1)" by simp
      have "(\<exists>k < Suc n. \<exists>rk s. dead_ends rnd cd pd k r = Some rk \<and>
          draw_attempt rnd cd pd rk = Inr (Some s, r') \<and> result = groups_formed s) \<longleftrightarrow>
        result = groups_formed s0 \<and> r' = r1"
        (is "?L \<longleftrightarrow> ?R")
      proof
        assume ?L
        then obtain k rk s where k: "k < Suc n" "dead_ends rnd cd pd k r = Some rk"
          "draw_attempt rnd cd pd rk = Inr (Some s, r')" "result = groups_formed s"
          by blast
        with d show ?R by (cases k) auto
      next
        assume ?R
        with d have "dead_ends rnd cd pd 0 r = Some r"
          "draw_attempt rnd cd pd r = Inr (Some s0, r')" "result = groups_formed s0"
          by simp_all
        then show ?L by blast
      qed
      with d show ?thesis by auto
    qed
  qed
qed

text \<open>
  C7. \<open>simulate_single_draw\<close> returns \<open>None\<close> if and only if \<open>max_attempts\<close> attempts in a
  row (none for a non-positive \<open>max_attempts\<close>) each end in a dead end; it returns an
  assignment if and only if, after fewer than \<open>max_attempts\<close> dead ends, one attempt
  succeeds, and the assignment is the one of that attempt alone. An attempt is a function
  of the input data and of the generator state: it starts from \<open>init_state\<close>, and nothing
  but the generator state passes from one attempt to the next.
\<close>

theorem simulate_single_draw_none_iff_all_dead_ends:
  "(simulate_single_draw rnd cd pd max_attempts r = Inr (None, r') \<longleftrightarrow>
      dead_ends rnd cd pd (nat max_attempts) r = Some r') \<and>
   (simulate_single_draw rnd cd pd max_attempts r = Inr (Some result, r') \<longleftrightarrow>
      (\<exists>k < nat max_attempts. \<exists>rk s. dead_ends rnd cd pd k r = Some rk \<and>
         draw_attempt rnd cd pd rk = Inr (Some s, r') \<and> result = groups_formed s))"
  unfolding simulate_single_draw_def
  using attempts_loop_None_iff [of rnd cd pd "nat max_attempts" r r']
    attempts_loop_Some_iff [of rnd cd pd "nat max_attempts" r result r']
  by blast

section \<open>The stub source\<close>







section \<open>The mass simulation driver\<close>

lemma update_sum:
  "sum_list (map snd (AList.update k v c)) =
     sum_list (map snd c) - dict_get (map_of c) k 0 + (v :: int)"
  by (induction c) (auto simp: dict_get_def)

lemma counter_incr_sum: "sum_list (map snd (counter_incr k c)) = sum_list (map snd c) + 1"
  by (simp add: counter_incr_def update_sum)

lemma record_target_sum:
  "record_target df target_team items c = Inr c' \<Longrightarrow>
   (g, teams) \<in> set items \<Longrightarrow> target_team \<in> set teams \<Longrightarrow>
   sum_list (map snd c') = sum_list (map snd c) + 1"
proof (induction items)
  case Nil
  then show ?case by simp
next
  case (Cons it items)
  obtain g0 teams0 where it: "it = (g0, teams0)" by (cases it)
  show ?case
  proof (cases "target_team \<in> set teams0")
    case True
    with Cons.prems(1) it show ?thesis
      by (auto simp: counter_incr_sum split: sum.splits)
  next
    case False
    with Cons it show ?thesis by auto
  qed
qed

lemma successful_draw_has_target:
  assumes "valid_source rnd"
    and "p \<in> {''Pot 1'', ''Pot 2'', ''Pot 3'', ''Pot 4''}" "pd p = Some teams" "t \<in> set teams"
    and "simulate_single_draw rnd cd pd max_attempts r = Inr (Some result, r')"
  shows "\<exists>g ts. (g, ts) \<in> set result \<and> t \<in> set ts"
proof -
  from assms(5) obtain r1 s where a: "draw_attempt rnd cd pd r1 = Inr (Some s, r')"
    and res: "result = groups_formed s"
    unfolding simulate_single_draw_def by (auto dest: attempts_loop_success)
  from draw_attempt_placed [OF assms(1) a assms(2-4)] obtain g
    where "t \<in> set (teams_of result g)"
    unfolding res by blast
  from teams_of_mem_items [OF this] show ?thesis
    by blast
qed

lemma run_one_failed:
  "simulate_single_draw rnd cd pd MAX_ATTEMPTS_PER_SIMULATION r = Inr (None, r') \<Longrightarrow>
   run_one rnd df cd pd target_team st r = Inr (st\<lparr>failed := failed st + 1\<rparr>, r')"
  by (simp add: run_one_def)

lemma run_one_sum:
  assumes "valid_source rnd"
    and "p \<in> {''Pot 1'', ''Pot 2'', ''Pot 3'', ''Pot 4''}" "pd p = Some teams"
      "target_team \<in> set teams"
    and "run_one rnd df cd pd target_team st r = Inr (st', r')"
  shows "sum_list (map snd (combinations st')) - successful st' =
     sum_list (map snd (combinations st)) - successful st"
proof (cases "simulate_single_draw rnd cd pd MAX_ATTEMPTS_PER_SIMULATION r")
  case (Inl e)
  with assms(5) show ?thesis by (simp add: run_one_def)
next
  case (Inr x)
  obtain res r1 where x: "x = (res, r1)" by (cases x)
  show ?thesis
  proof (cases res)
    case None
    with Inr x assms(5) show ?thesis by (auto simp: run_one_def)
  next
    case (Some result)
    with Inr x have sim:
      "simulate_single_draw rnd cd pd MAX_ATTEMPTS_PER_SIMULATION r = Inr (Some result, r1)"
      by simp
    from successful_draw_has_target [OF assms(1-4) sim] obtain g ts
      where g: "(g, ts) \<in> set result" "target_team \<in> set ts"
      by blast
    then have ne: "result \<noteq> []" by auto
    with sim assms(5) obtain c where
      c: "record_target df target_team result (combinations st) = Inr c"
      and st': "st' = st\<lparr>successful := successful st + 1, combinations := c\<rparr>"
      by (auto simp: run_one_def split: sum.splits)
    from record_target_sum [OF c g] st' show ?thesis by simp
  qed
qed

lemma run_loop_sum:
  assumes "valid_source rnd"
    and "p \<in> {''Pot 1'', ''Pot 2'', ''Pot 3'', ''Pot 4''}" "pd p = Some teams"
      "target_team \<in> set teams"
  shows "run_loop rnd df cd pd target_team n st r = Inr (st', r') \<Longrightarrow>
    sum_list (map snd (combinations st')) - successful st' =
     sum_list (map snd (combinations st)) - successful st"
proof (induction n arbitrary: st r)
  case 0
  then show ?case by simp
next
  case (Suc n)
  from Suc.prems obtain st1 r1 where
    one: "run_one rnd df cd pd target_team st r = Inr (st1, r1)"
    and rest: "run_loop rnd df cd pd target_team n st1 r1 = Inr (st', r')"
    by (auto split: sum.splits)
  from Suc.IH [OF rest] run_one_sum [OF assms one] show ?case
    by simp
qed

text \<open>
  C8, as the code has it. The driver counts a combination only for a group that contains
  the tracked team. When the tracked team is in one of the four pots and the randomness
  source keeps the promises of the library, the counts of the frequency table returned
  by \<open>run_mass_simulation\<close> add up to the returned successful count; and a run in which
  the engine returns \<open>None\<close> adds one to the failed count and leaves the frequency table
  and the successful count as they are.
\<close>

theorem mass_simulation_counts:
  assumes "valid_source rnd"
    and "p \<in> {''Pot 1'', ''Pot 2'', ''Pot 3'', ''Pot 4''}" "pd p = Some teams"
      "target_team \<in> set teams"
  shows "(run_mass_simulation rnd df cd pd num_simulations target_team r = Inr (st, r') \<longrightarrow>
       sum_list (map snd (combinations st)) = successful st) \<and>
     (simulate_single_draw rnd cd pd MAX_ATTEMPTS_PER_SIMULATION ra = Inr (None, rb) \<longrightarrow>
       run_one rnd df cd pd target_team sta ra = Inr (sta\<lparr>failed := failed sta + 1\<rparr>, rb) \<and>
       combinations (sta\<lparr>failed := failed sta + 1\<rparr>) = combinations sta \<and>
       successful (sta\<lparr>failed := failed sta + 1\<rparr>) = successful sta)"
proof -
  have "sum_list (map snd (combinations st)) = successful st"
    if "run_mass_simulation rnd df cd pd num_simulations target_team r = Inr (st, r')"
    using run_loop_sum [OF assms that [unfolded run_mass_simulation_def]] by simp
  then show ?thesis
    by (simp add: run_one_failed)
qed

section \<open>The example runs of the driver\<close>

lemma ex_attempt:
  "\<exists>s. draw_attempt first_source ex_conf_dict ex_pot_dict () = Inr (Some s, ()) \<and>
     groups_formed s = ex_result"
  using attempts_loop_success [of first_source ex_conf_dict ex_pot_dict 1 "()" ex_result "()"]
    ex_draw
  by (auto simp: simulate_single_draw_def)

lemma ex_draw_budget:
  "simulate_single_draw first_source ex_conf_dict ex_pot_dict MAX_ATTEMPTS_PER_SIMULATION ()
     = Inr (Some ex_result, ())"
proof -
  from ex_attempt obtain s where
    "draw_attempt first_source ex_conf_dict ex_pot_dict () = Inr (Some s, ())"
    "groups_formed s = ex_result"
    by blast
  from attempts_loop_first_success [OF this(1), of "nat MAX_ATTEMPTS_PER_SIMULATION"] this(2)
  show ?thesis
    by (simp add: simulate_single_draw_def MAX_ATTEMPTS_PER_SIMULATION_def)
qed

lemma ov_attempt_eval:
  "(case draw_attempt first_source ov_conf_dict ov_pot_dict () of
      Inr (None, _) \<Rightarrow> True | _ \<Rightarrow> False)"
  by code_simp

lemma ov_attempt: "draw_attempt first_source ov_conf_dict ov_pot_dict () = Inr (None, ())"
  using ov_attempt_eval by (auto split: sum.splits option.splits prod.splits)

lemma ov_dead_ends: "dead_ends first_source ov_conf_dict ov_pot_dict n () = Some ()"
  by (induction n) (simp_all add: ov_attempt)

lemma ov_draw:
  "simulate_single_draw first_source ov_conf_dict ov_pot_dict max_attempts () = Inr (None, ())"
  by (simp add: simulate_single_draw_def attempts_loop_None_iff ov_dead_ends)

theorem mass_simulation_counts_witness:
  "valid_source (first_source :: unit randomness) \<and>
   ''Pot 1'' \<in> {''Pot 1'', ''Pot 2'', ''Pot 3'', ''Pot 4''} \<and>
   ex_pot_dict ''Pot 1'' = Some ex_pot1 \<and> ''Argentina'' \<in> set ex_pot1 \<and>
   run_mass_simulation first_source ex_df_pots ex_conf_dict ex_pot_dict 1 ''Argentina'' () =
     Inr (\<lparr>combinations = [((Some ''Iran'', Some ''Tunisia'', Some ''Playoff UEFA 4''), 1)],
           successful = 1, failed = 0\<rparr>, ()) \<and>
   sum_list (map snd [((Some ''Iran'', Some ''Tunisia'', Some ''Playoff UEFA 4''), 1 :: int)]) = 1"
proof -
  have a: "''Argentina'' \<in> set ex_pot1"
    by (simp add: ex_pot1_def)
  have rt: "record_target ex_df_pots ''Argentina'' ex_result [] =
      Inr [((Some ''Iran'', Some ''Tunisia'', Some ''Playoff UEFA 4''), 1)]"
    by (simp add: ex_result_def ex_df_pots_def counter_incr_def dict_get_def)
  have ne: "ex_result \<noteq> []"
    by (simp add: ex_result_def)
  have run: "run_mass_simulation first_source ex_df_pots ex_conf_dict ex_pot_dict 1 ''Argentina'' () =
     Inr (\<lparr>combinations = [((Some ''Iran'', Some ''Tunisia'', Some ''Playoff UEFA 4''), 1)],
           successful = 1, failed = 0\<rparr>, ())"
    using ex_draw_budget rt ne by (simp add: run_mass_simulation_def run_one_def)
  have p: "''Pot 1'' \<in> {''Pot 1'', ''Pot 2'', ''Pot 3'', ''Pot 4''}"
    by simp
  from mass_simulation_counts [where rnd = first_source and pd = ex_pot_dict
      and df = ex_df_pots and cd = ex_conf_dict and num_simulations = 1 and r = "()",
      OF valid_first_source p ex_pot_dict_simps(1) a] run
  show ?thesis
    using valid_first_source ex_pot_dict_simps(1) a by simp
qed

text \<open>
  C8, as the claim states it, fails for a tracked team that is in no pot: the run over the
  example roster succeeds, the successful count is 1 and the frequency table is empty.
\<close>

theorem mass_simulation_absent_target_counterexample:
  "run_mass_simulation first_source ex_df_pots ex_conf_dict ex_pot_dict 1 ''Atlantis'' () =
     Inr (\<lparr>combinations = [], successful = 1, failed = 0\<rparr>, ()) \<and>
   sum_list (map snd (combinations \<lparr>combinations = [], successful = 1, failed = 0\<rparr>))
     \<noteq> successful \<lparr>combinations = [], successful = 1, failed = 0\<rparr>"
proof -
  have rt: "record_target ex_df_pots ''Atlantis'' ex_result [] = Inr []"
    by (simp add: ex_result_def)
  have ne: "ex_result \<noteq> []"
    by (simp add: ex_result_def)
  show ?thesis
    using ex_draw_budget rt ne by (simp add: run_mass_simulation_def run_one_def)
qed

section \<open>The over-constrained instance\<close>






theorem simulate_single_draw_none_iff_all_dead_ends_witness:
  "dead_ends first_source ov_conf_dict ov_pot_dict (nat 3) () = Some () \<and>
   simulate_single_draw first_source ov_conf_dict ov_pot_dict 3 () = Inr (None, ()) \<and>
   simulate_single_draw first_source ex_conf_dict ex_pot_dict 1 () = Inr (Some ex_result, ()) \<and>
   (\<exists>k < nat 1. \<exists>rk s. dead_ends first_source ex_conf_dict ex_pot_dict k () = Some rk \<and>
      draw_attempt first_source ex_conf_dict ex_pot_dict rk = Inr (Some s, ()) \<and>
      ex_result = groups_formed s)"
  using simulate_single_draw_none_iff_all_dead_ends
      [of first_source ov_conf_dict ov_pot_dict 3 "()" "()"]
    simulate_single_draw_none_iff_all_dead_ends
      [of first_source ex_conf_dict ex_pot_dict 1 "()" "()" ex_result]
    ov_dead_ends [of "nat 3"] ex_draw
  by blast


end
